theory Spec2Isabelle
  imports Complex_Main "HOL-Library.AList" "HOL-Library.Sublist"
begin

section \<open>Data model (shared schema)\<close>

text \<open>
  The tables of the shared schema become records. Field names carry a prefix for their
  table, since several tables have an \<open>id\<close>, a \<open>status\<close> and a \<open>timestamp\<close> column.
  A nullable column is an \<open>option\<close> (\<open>None\<close> is \<open>null\<close>), a \<open>Date\<close> is its number of
  milliseconds, a \<open>jsonb\<close> value is a \<open>json\<close> tree. JavaScript numbers used as ids and
  counters are modelled as unbounded integers. The counter starts at 1 and grows by 1; as
  a double it counts exactly as long as it is below \<open>2 ^ 53\<close>, and there the model and
  the code agree.
\<close>

type_synonym date = int

datatype json =
    JNull
  | JBool bool
  | JNum int
  | JStr string
  | JArr "json list"
  | JObj "(string \<times> json) list"

record user =
  us_id :: int
  us_username :: string
  us_password :: string

record insert_user =
  iu_username :: string
  iu_password :: string

record processed_file =
  pf_id :: int
  pf_filename :: string
  pf_originalName :: string
  pf_fileType :: string
  pf_size :: int
  pf_uploadedAt :: date
  pf_processedAt :: "date option"
  pf_status :: string
  pf_classificationResult :: "json option"
  pf_extractedData :: "json option"
  pf_businessIntent :: "string option"
  pf_priority :: "string option"
  pf_agentAssigned :: "string option"

text \<open>\<open>InsertProcessedFile\<close>: the schema omits \<open>id\<close>, \<open>uploadedAt\<close> and \<open>processedAt\<close>.\<close>

record insert_processed_file =
  ipf_filename :: string
  ipf_originalName :: string
  ipf_fileType :: string
  ipf_size :: int
  ipf_status :: string
  ipf_classificationResult :: "json option"
  ipf_extractedData :: "json option"
  ipf_businessIntent :: "string option"
  ipf_priority :: "string option"
  ipf_agentAssigned :: "string option"

text \<open>
  \<open>Partial<ProcessedFile>\<close>: every key may be absent. \<open>None\<close> is an absent key,
  \<open>Some v\<close> a key named in the object literal with value \<open>v\<close>.
\<close>

record processed_file_partial =
  pfu_id :: "int option"
  pfu_filename :: "string option"
  pfu_originalName :: "string option"
  pfu_fileType :: "string option"
  pfu_size :: "int option"
  pfu_uploadedAt :: "date option"
  pfu_processedAt :: "date option option"
  pfu_status :: "string option"
  pfu_classificationResult :: "json option option"
  pfu_extractedData :: "json option option"
  pfu_businessIntent :: "string option option"
  pfu_priority :: "string option option"
  pfu_agentAssigned :: "string option option"

record agent_activity =
  aa_id :: int
  aa_fileId :: "int option"
  aa_agentName :: string
  aa_action :: string
  aa_input :: "json option"
  aa_output :: "json option"
  aa_status :: string
  aa_timestamp :: date
  aa_processingTime :: "int option"
  aa_errorMessage :: "string option"

record insert_agent_activity =
  iaa_fileId :: "int option"
  iaa_agentName :: string
  iaa_action :: string
  iaa_input :: "json option"
  iaa_output :: "json option"
  iaa_status :: string
  iaa_processingTime :: "int option"
  iaa_errorMessage :: "string option"

record triggered_action =
  ta_id :: int
  ta_fileId :: "int option"
  ta_actionType :: string
  ta_description :: string
  ta_priority :: string
  ta_status :: string
  ta_externalApiCall :: "string option"
  ta_timestamp :: date
  ta_metadata :: "json option"

record insert_triggered_action =
  ita_fileId :: "int option"
  ita_actionType :: string
  ita_description :: string
  ita_priority :: string
  ita_status :: string
  ita_externalApiCall :: "string option"
  ita_metadata :: "json option"

record triggered_action_partial =
  tau_id :: "int option"
  tau_fileId :: "int option option"
  tau_actionType :: "string option"
  tau_description :: "string option"
  tau_priority :: "string option"
  tau_status :: "string option"
  tau_externalApiCall :: "string option option"
  tau_timestamp :: "date option"
  tau_metadata :: "json option option"

record system_metric =
  sm_id :: int
  sm_metricName :: string
  sm_metricValue :: string
  sm_timestamp :: date

record insert_system_metric =
  ism_metricName :: string
  ism_metricValue :: string

section \<open>The in-memory store (\<open>MemStorage\<close>)\<close>

text \<open>
  A JavaScript \<open>Map\<close> keeps its entries in insertion order; \<open>set\<close> on a key that is
  present replaces the value in place, on a new key it appends the entry. That is an
  association list with \<open>AList.update\<close>.
\<close>

type_synonym 'v js_map = "(int \<times> 'v) list"

definition Map_get :: "'v js_map \<Rightarrow> int \<Rightarrow> 'v option" where
  "Map_get m k = map_of m k"

definition Map_set :: "'v js_map \<Rightarrow> int \<Rightarrow> 'v \<Rightarrow> 'v js_map" where
  "Map_set m k v = AList.update k v m"

definition Map_values :: "'v js_map \<Rightarrow> 'v list" where
  "Map_values m = map snd m"

record storage =
  users :: "user js_map"
  processedFiles :: "processed_file js_map"
  agentActivities :: "agent_activity js_map"
  triggeredActions :: "triggered_action js_map"
  systemMetrics :: "system_metric js_map"
  currentId :: int

text \<open>The constructor.\<close>

definition MemStorage :: storage where
  "MemStorage = \<lparr> users = [], processedFiles = [], agentActivities = [],
     triggeredActions = [], systemMetrics = [], currentId = 1 \<rparr>"

text \<open>The two errors that the store throws.\<close>

datatype error =
    ProcessedFileNotFound int
  | TriggeredActionNotFound int

text \<open>
  Every operation takes the store and returns the store after the call together with the
  value returned (or the error thrown). \<open>new Date()\<close> is the argument \<open>now\<close>.
\<close>

definition getUser :: "storage \<Rightarrow> int \<Rightarrow> user option" where
  "getUser s i = Map_get (users s) i"

definition getUserByUsername :: "storage \<Rightarrow> string \<Rightarrow> user option" where
  "getUserByUsername s username = find (\<lambda>u. us_username u = username) (Map_values (users s))"

definition createUser :: "storage \<Rightarrow> insert_user \<Rightarrow> storage \<times> user" where
  "createUser s insertUser =
     (let i = currentId s;
          s1 = s\<lparr>currentId := currentId s + 1\<rparr>;
          u = \<lparr> us_id = i, us_username = iu_username insertUser,
                us_password = iu_password insertUser \<rparr>
      in (s1\<lparr>users := Map_set (users s1) i u\<rparr>, u))"

definition createProcessedFile ::
  "storage \<Rightarrow> date \<Rightarrow> insert_processed_file \<Rightarrow> storage \<times> processed_file" where
  "createProcessedFile s now file =
     (let i = currentId s;
          s1 = s\<lparr>currentId := currentId s + 1\<rparr>;
          processedFile = \<lparr> pf_id = i,
            pf_filename = ipf_filename file,
            pf_originalName = ipf_originalName file,
            pf_fileType = ipf_fileType file,
            pf_size = ipf_size file,
            pf_uploadedAt = now,
            pf_processedAt = None,
            pf_status = ipf_status file,
            pf_classificationResult = ipf_classificationResult file,
            pf_extractedData = ipf_extractedData file,
            pf_businessIntent = ipf_businessIntent file,
            pf_priority = ipf_priority file,
            pf_agentAssigned = ipf_agentAssigned file \<rparr>
      in (s1\<lparr>processedFiles := Map_set (processedFiles s1) i processedFile\<rparr>, processedFile))"

text \<open>The object spread \<open>{ ...existing, ...updates }\<close>: a key of \<open>updates\<close> wins.\<close>

fun spread :: "'a \<Rightarrow> 'a option \<Rightarrow> 'a" where
  "spread existing None = existing"
| "spread existing (Some v) = v"

definition spread_processed_file ::
  "processed_file \<Rightarrow> processed_file_partial \<Rightarrow> processed_file" where
  "spread_processed_file existing updates =
     \<lparr> pf_id = spread (pf_id existing) (pfu_id updates),
       pf_filename = spread (pf_filename existing) (pfu_filename updates),
       pf_originalName = spread (pf_originalName existing) (pfu_originalName updates),
       pf_fileType = spread (pf_fileType existing) (pfu_fileType updates),
       pf_size = spread (pf_size existing) (pfu_size updates),
       pf_uploadedAt = spread (pf_uploadedAt existing) (pfu_uploadedAt updates),
       pf_processedAt = spread (pf_processedAt existing) (pfu_processedAt updates),
       pf_status = spread (pf_status existing) (pfu_status updates),
       pf_classificationResult =
         spread (pf_classificationResult existing) (pfu_classificationResult updates),
       pf_extractedData = spread (pf_extractedData existing) (pfu_extractedData updates),
       pf_businessIntent = spread (pf_businessIntent existing) (pfu_businessIntent updates),
       pf_priority = spread (pf_priority existing) (pfu_priority updates),
       pf_agentAssigned = spread (pf_agentAssigned existing) (pfu_agentAssigned updates) \<rparr>"

definition updateProcessedFile ::
  "storage \<Rightarrow> int \<Rightarrow> processed_file_partial \<Rightarrow> storage \<times> (error + processed_file)" where
  "updateProcessedFile s i updates =
     (case Map_get (processedFiles s) i of
        None \<Rightarrow> (s, Inl (ProcessedFileNotFound i))
      | Some existing \<Rightarrow>
          (let updated = spread_processed_file existing updates
           in (s\<lparr>processedFiles := Map_set (processedFiles s) i updated\<rparr>, Inr updated)))"

definition getProcessedFile :: "storage \<Rightarrow> int \<Rightarrow> processed_file option" where
  "getProcessedFile s i = Map_get (processedFiles s) i"

definition getProcessedFilesByStatus :: "storage \<Rightarrow> string \<Rightarrow> processed_file list" where
  "getProcessedFilesByStatus s status =
     filter (\<lambda>f. pf_status f = status) (Map_values (processedFiles s))"

definition createAgentActivity ::
  "storage \<Rightarrow> date \<Rightarrow> insert_agent_activity \<Rightarrow> storage \<times> agent_activity" where
  "createAgentActivity s now activity =
     (let i = currentId s;
          s1 = s\<lparr>currentId := currentId s + 1\<rparr>;
          agentActivity = \<lparr> aa_id = i,
            aa_fileId = iaa_fileId activity,
            aa_agentName = iaa_agentName activity,
            aa_action = iaa_action activity,
            aa_input = iaa_input activity,
            aa_output = iaa_output activity,
            aa_status = iaa_status activity,
            aa_timestamp = now,
            aa_processingTime = iaa_processingTime activity,
            aa_errorMessage = iaa_errorMessage activity \<rparr>
      in (s1\<lparr>agentActivities := Map_set (agentActivities s1) i agentActivity\<rparr>, agentActivity))"

definition getAgentActivitiesByAgent :: "storage \<Rightarrow> string \<Rightarrow> agent_activity list" where
  "getAgentActivitiesByAgent s agentName =
     filter (\<lambda>a. aa_agentName a = agentName) (Map_values (agentActivities s))"

definition createTriggeredAction ::
  "storage \<Rightarrow> date \<Rightarrow> insert_triggered_action \<Rightarrow> storage \<times> triggered_action" where
  "createTriggeredAction s now action =
     (let i = currentId s;
          s1 = s\<lparr>currentId := currentId s + 1\<rparr>;
          triggeredAction = \<lparr> ta_id = i,
            ta_fileId = ita_fileId action,
            ta_actionType = ita_actionType action,
            ta_description = ita_description action,
            ta_priority = ita_priority action,
            ta_status = ita_status action,
            ta_externalApiCall = ita_externalApiCall action,
            ta_timestamp = now,
            ta_metadata = ita_metadata action \<rparr>
      in (s1\<lparr>triggeredActions := Map_set (triggeredActions s1) i triggeredAction\<rparr>,
          triggeredAction))"

definition spread_triggered_action ::
  "triggered_action \<Rightarrow> triggered_action_partial \<Rightarrow> triggered_action" where
  "spread_triggered_action existing updates =
     \<lparr> ta_id = spread (ta_id existing) (tau_id updates),
       ta_fileId = spread (ta_fileId existing) (tau_fileId updates),
       ta_actionType = spread (ta_actionType existing) (tau_actionType updates),
       ta_description = spread (ta_description existing) (tau_description updates),
       ta_priority = spread (ta_priority existing) (tau_priority updates),
       ta_status = spread (ta_status existing) (tau_status updates),
       ta_externalApiCall = spread (ta_externalApiCall existing) (tau_externalApiCall updates),
       ta_timestamp = spread (ta_timestamp existing) (tau_timestamp updates),
       ta_metadata = spread (ta_metadata existing) (tau_metadata updates) \<rparr>"

definition updateTriggeredAction ::
  "storage \<Rightarrow> int \<Rightarrow> triggered_action_partial \<Rightarrow> storage \<times> (error + triggered_action)" where
  "updateTriggeredAction s i updates =
     (case Map_get (triggeredActions s) i of
        None \<Rightarrow> (s, Inl (TriggeredActionNotFound i))
      | Some existing \<Rightarrow>
          (let updated = spread_triggered_action existing updates
           in (s\<lparr>triggeredActions := Map_set (triggeredActions s) i updated\<rparr>, Inr updated)))"

definition createSystemMetric ::
  "storage \<Rightarrow> date \<Rightarrow> insert_system_metric \<Rightarrow> storage \<times> system_metric" where
  "createSystemMetric s now metric =
     (let i = currentId s;
          s1 = s\<lparr>currentId := currentId s + 1\<rparr>;
          systemMetric = \<lparr> sm_id = i,
            sm_metricName = ism_metricName metric,
            sm_metricValue = ism_metricValue metric,
            sm_timestamp = now \<rparr>
      in (s1\<lparr>systemMetrics := Map_set (systemMetrics s1) i systemMetric\<rparr>, systemMetric))"

text \<open>
  \<open>getAgentActivities(fileId?, limit = 50)\<close>: the filter applies when \<open>fileId\<close> is
  truthy (given and not 0); the comparator \<open>b.timestamp - a.timestamp\<close> sorts newest
  first, and the sort is stable.
\<close>

definition getAgentActivities :: "storage \<Rightarrow> int option \<Rightarrow> nat \<Rightarrow> agent_activity list" where
  "getAgentActivities s fileId limit =
     (let activities = Map_values (agentActivities s);
          activities1 = (case fileId of
              None \<Rightarrow> activities
            | Some i \<Rightarrow> if i = 0 then activities
                        else filter (\<lambda>a. aa_fileId a = Some i) activities)
      in take limit (sort_key (\<lambda>a. - aa_timestamp a) activities1))"

subsection \<open>Dashboard statistics\<close>

text \<open>
  A JavaScript number that results from a division: \<open>0 / 0\<close> is \<open>NaN\<close> and \<open>x / 0\<close> is
  an infinity; neither raises. Quotients of finite numbers are taken in the reals (the
  rounding of IEEE doubles is not modelled).
\<close>

datatype jsnum = Num real | NaN | PosInfinity | NegInfinity

definition js_div :: "real \<Rightarrow> real \<Rightarrow> jsnum" where
  "js_div a b =
     (if b = 0 then (if a = 0 then NaN else if 0 < a then PosInfinity else NegInfinity)
      else Num (a / b))"

fun js_times :: "jsnum \<Rightarrow> real \<Rightarrow> jsnum" where
  "js_times (Num x) c = Num (x * c)"
| "js_times NaN c = NaN"
| "js_times PosInfinity c =
     (if c = 0 then NaN else if 0 < c then PosInfinity else NegInfinity)"
| "js_times NegInfinity c =
     (if c = 0 then NaN else if 0 < c then NegInfinity else PosInfinity)"

record dashboard_stats =
  processedToday :: nat
  totalProcessed :: nat
  successRate :: jsnum
  averageProcessingTime :: jsnum
  activeAgents :: nat

text \<open>\<open>a.processingTime || 0\<close>: \<open>null\<close> (and 0) give 0.\<close>

fun processingTime_or_0 :: "int option \<Rightarrow> int" where
  "processingTime_or_0 None = 0"
| "processingTime_or_0 (Some t) = t"

text \<open>
  \<open>today\<close> is the local midnight computed by \<open>setHours(0, 0, 0, 0)\<close>, passed in.
  \<open>new Set(...).size\<close> counts the distinct agent names; \<open>uniqueAgents || 4\<close> replaces a
  count of 0 by 4.
\<close>

definition getDashboardStats :: "storage \<Rightarrow> date \<Rightarrow> dashboard_stats" where
  "getDashboardStats s today =
     (let allFiles = Map_values (processedFiles s);
          todayFiles = filter (\<lambda>f. pf_uploadedAt f \<ge> today) allFiles;
          completedFiles = filter (\<lambda>f. pf_status f = ''completed'') allFiles;
          activities = Map_values (agentActivities s);
          avgProcessingTime =
            (if length activities > 0
             then js_div (real_of_int
                     (foldl (\<lambda>sum a. sum + processingTime_or_0 (aa_processingTime a)) 0 activities))
                    (real (length activities))
             else Num 0);
          uniqueAgents = length (remdups (map aa_agentName activities))
      in \<lparr> processedToday = length todayFiles,
           totalProcessed = length allFiles,
           successRate =
             (if length allFiles > 0
              then js_times (js_div (real (length completedFiles)) (real (length allFiles))) 100
              else Num 0),
           averageProcessingTime = avgProcessingTime,
           activeAgents = (if uniqueAgents = 0 then 4 else uniqueAgents) \<rparr>)"

subsection \<open>The storage interface as a whole\<close>

text \<open>
  One constructor for each method of \<open>IStorage\<close>. \<open>exec_op\<close> gives the store after the
  call and the id that the call assigned, if it created a record. The read methods assign
  to no field of the store.
\<close>

datatype storage_op =
    OpGetUser int
  | OpGetUserByUsername string
  | OpCreateUser insert_user
  | OpCreateProcessedFile insert_processed_file
  | OpUpdateProcessedFile int processed_file_partial
  | OpGetProcessedFile int
  | OpGetProcessedFiles
  | OpGetProcessedFilesByStatus string
  | OpCreateAgentActivity insert_agent_activity
  | OpGetAgentActivities "int option" nat
  | OpGetAgentActivitiesByAgent string
  | OpCreateTriggeredAction insert_triggered_action
  | OpGetTriggeredActions
  | OpUpdateTriggeredAction int triggered_action_partial
  | OpCreateSystemMetric insert_system_metric
  | OpGetSystemMetrics
  | OpGetLatestMetric string
  | OpGetDashboardStats

fun exec_op :: "storage \<Rightarrow> date \<Rightarrow> storage_op \<Rightarrow> storage \<times> int option" where
  "exec_op s now (OpCreateUser u) =
     (case createUser s u of (s', r) \<Rightarrow> (s', Some (us_id r)))"
| "exec_op s now (OpCreateProcessedFile f) =
     (case createProcessedFile s now f of (s', r) \<Rightarrow> (s', Some (pf_id r)))"
| "exec_op s now (OpUpdateProcessedFile i u) = (fst (updateProcessedFile s i u), None)"
| "exec_op s now (OpCreateAgentActivity a) =
     (case createAgentActivity s now a of (s', r) \<Rightarrow> (s', Some (aa_id r)))"
| "exec_op s now (OpCreateTriggeredAction a) =
     (case createTriggeredAction s now a of (s', r) \<Rightarrow> (s', Some (ta_id r)))"
| "exec_op s now (OpUpdateTriggeredAction i u) = (fst (updateTriggeredAction s i u), None)"
| "exec_op s now (OpCreateSystemMetric m) =
     (case createSystemMetric s now m of (s', r) \<Rightarrow> (s', Some (sm_id r)))"
| "exec_op s now _ = (s, None)"

text \<open>A sequence of calls, each at its own time; the ids assigned, in order.\<close>

fun run_ops :: "storage \<Rightarrow> (date \<times> storage_op) list \<Rightarrow> storage \<times> int list" where
  "run_ops s [] = (s, [])"
| "run_ops s ((now, op) # ops) =
     (case exec_op s now op of
        (s1, assigned) \<Rightarrow>
          (case run_ops s1 ops of
             (s2, ids) \<Rightarrow> (s2, (case assigned of None \<Rightarrow> ids | Some i \<Rightarrow> i # ids))))"

section \<open>The routes\<close>

subsection \<open>Library functions used by the upload handler\<close>

text \<open>
  \<open>String.prototype.toLowerCase\<close> on strings of 8-bit characters: the letters A-Z and
  the upper-case letters of Latin-1 move up by 32, everything else stays.
\<close>

definition toLowerCase_char :: "char \<Rightarrow> char" where
  "toLowerCase_char c =
     (let n = (of_char c :: nat)
      in if (65 \<le> n \<and> n \<le> 90) \<or> (192 \<le> n \<and> n \<le> 222 \<and> n \<noteq> 215)
         then char_of (n + 32) else c)"

definition toLowerCase :: "string \<Rightarrow> string" where
  "toLowerCase str = map toLowerCase_char str"

text \<open>
  \<open>path.extname\<close> of Node (POSIX flavour), a library function: the part of the last path
  component from its last dot on; empty when the component has no dot, when its only dot
  is its first character, and for the component \<open>..\<close>. Trailing slashes are ignored.
\<close>

definition extname :: "string \<Rightarrow> string" where
  "extname path =
     (let trimmed = rev (dropWhile (\<lambda>c. c = CHR ''/'') (rev path));
          base = rev (takeWhile (\<lambda>c. c \<noteq> CHR ''/'') (rev trimmed));
          after_dot = rev (takeWhile (\<lambda>c. c \<noteq> CHR ''.'') (rev base))
      in if CHR ''.'' \<notin> set base then []
         else if length after_dot + 1 = length base then []
         else if base = ''..'' then []
         else CHR ''.'' # after_dot)"

subsection \<open>Requests, responses and suspended calls\<close>

text \<open>
  \<open>req.file\<close> as multer fills it in; \<open>mf_bytes\<close> are the bytes that multer stored under
  \<open>mf_path\<close>. The handler reads the other four fields only.
\<close>

record multer_file =
  mf_originalname :: string
  mf_filename :: string
  mf_path :: string
  mf_size :: int
  mf_bytes :: string

datatype response_body =
    BodyError string
  | BodySuccess bool int string

type_synonym http_response = "nat \<times> response_body"

text \<open>
  The upload handler and \<open>processFileWithAI\<close> are \<open>async\<close> functions: each runs up to
  its next \<open>await\<close> and is resumed later. The handler makes one call of
  \<open>processFileWithAI\<close> for the file it created, so one record follows a document from
  the handler into that call. It holds the arguments of the call and the point where the
  work is suspended:
  \<^item> \<open>AwaitCreate\<close>: the handler is at \<open>await storage.createProcessedFile(...)\<close>, the
    record of the file has been stored;
  \<^item> \<open>AwaitUpdate\<close>: \<open>processFileWithAI\<close> is at its first \<open>await\<close>,
    \<open>updateProcessedFile\<close> has returned; the handler has sent its response;
  \<^item> \<open>AwaitUpdateRejected\<close>: the same, \<open>updateProcessedFile\<close> has thrown;
  \<^item> \<open>AwaitActivity\<close>: at the second \<open>await\<close>, \<open>createAgentActivity\<close> has returned;
  \<^item> \<open>ChildRunning\<close>: the function has returned, the child process has not closed;
  \<^item> \<open>Done\<close>: nothing of the call remains to run.
\<close>

datatype stage =
  AwaitCreate | AwaitUpdate | AwaitUpdateRejected | AwaitActivity | ChildRunning | Done

record run =
  run_fileId :: int
  run_filePath :: string
  run_fileType :: string
  run_stage :: stage

text \<open>
  The server: the store, the documents in flight, and the child processes started by
  \<open>spawn\<close> so far (file id, path and type, as given on the command line).
\<close>

record system =
  store :: storage
  runs :: "run list"
  spawned :: "(int \<times> string \<times> string) list"

definition initial_system :: system where
  "initial_system = \<lparr> store = MemStorage, runs = [], spawned = [] \<rparr>"

definition no_file_updates :: processed_file_partial where
  "no_file_updates = \<lparr> pfu_id = None, pfu_filename = None, pfu_originalName = None,
     pfu_fileType = None, pfu_size = None, pfu_uploadedAt = None, pfu_processedAt = None,
     pfu_status = None, pfu_classificationResult = None, pfu_extractedData = None,
     pfu_businessIntent = None, pfu_priority = None, pfu_agentAssigned = None \<rparr>"

subsection \<open>\<open>processFileWithAI\<close>\<close>

text \<open>The call itself: the body up to the first \<open>await\<close>.\<close>

definition processFileWithAI_call :: "storage \<Rightarrow> date \<Rightarrow> int \<Rightarrow> storage \<times> stage" where
  "processFileWithAI_call s now fileId =
     (case updateProcessedFile s fileId
             (no_file_updates\<lparr> pfu_status := Some ''processing'',
                                pfu_processedAt := Some (Some now) \<rparr>) of
        (s', Inl e) \<Rightarrow> (s', AwaitUpdateRejected)
      | (s', Inr updated) \<Rightarrow> (s', AwaitUpdate))"

text \<open>
  The \<open>catch\<close> block: it sets the status to \<open>failed\<close>. When this update throws as well,
  the promise of the call is rejected and the store stays as it is.
\<close>

definition catch_block :: "system \<Rightarrow> nat \<Rightarrow> system" where
  "catch_block sys n =
     (let r = runs sys ! n
      in case updateProcessedFile (store sys) (run_fileId r)
                (no_file_updates\<lparr> pfu_status := Some ''failed'' \<rparr>) of
           (s', res) \<Rightarrow> sys\<lparr> store := s', runs := (runs sys)[n := r\<lparr>run_stage := Done\<rparr>] \<rparr>)"

definition start_activity :: "run \<Rightarrow> insert_agent_activity" where
  "start_activity r =
     \<lparr> iaa_fileId = Some (run_fileId r),
       iaa_agentName = ''Classifier Agent'',
       iaa_action = ''Start Processing'',
       iaa_input = Some (JObj [(''fileType'', JStr (run_fileType r)),
                               (''filePath'', JStr (run_filePath r))]),
       iaa_output = None,
       iaa_status = ''pending'',
       iaa_processingTime = None,
       iaa_errorMessage = None \<rparr>"

text \<open>
  Resuming the call for document \<open>n\<close> at its \<open>await\<close>. After the first \<open>await\<close> the
  activity is written; after the second the child is spawned and the handlers are
  registered, unless \<open>spawn\<close> throws (\<open>spawnThrows\<close>), which enters the \<open>catch\<close> block.
\<close>

definition resume :: "system \<Rightarrow> nat \<Rightarrow> date \<Rightarrow> bool \<Rightarrow> system" where
  "resume sys n now spawnThrows =
     (let r = runs sys ! n
      in case run_stage r of
           AwaitCreate \<Rightarrow> sys
         | AwaitUpdate \<Rightarrow>
             (case createAgentActivity (store sys) now (start_activity r) of
                (s', a) \<Rightarrow>
                  sys\<lparr> store := s', runs := (runs sys)[n := r\<lparr>run_stage := AwaitActivity\<rparr>] \<rparr>)
         | AwaitUpdateRejected \<Rightarrow> catch_block sys n
         | AwaitActivity \<Rightarrow>
             (if spawnThrows then catch_block sys n
              else sys\<lparr> spawned := spawned sys @ [(run_fileId r, run_filePath r, run_fileType r)],
                        runs := (runs sys)[n := r\<lparr>run_stage := ChildRunning\<rparr>] \<rparr>)
         | ChildRunning \<Rightarrow> sys
         | Done \<Rightarrow> sys)"

text \<open>
  The \<open>close\<close> handler of the child of document \<open>n\<close>; \<open>code\<close> is \<open>null\<close> (\<open>None\<close>) when
  a signal ended the child. Exit code 0 only logs. An error thrown by the update is not
  caught by anything and leaves the store as it is.
\<close>

definition on_close :: "system \<Rightarrow> nat \<Rightarrow> int option \<Rightarrow> system" where
  "on_close sys n code =
     (let r = runs sys ! n
      in if run_stage r = ChildRunning
         then (if code = Some 0
               then sys\<lparr> runs := (runs sys)[n := r\<lparr>run_stage := Done\<rparr>] \<rparr>
               else (case updateProcessedFile (store sys) (run_fileId r)
                            (no_file_updates\<lparr> pfu_status := Some ''failed'' \<rparr>) of
                       (s', res) \<Rightarrow>
                         sys\<lparr> store := s', runs := (runs sys)[n := r\<lparr>run_stage := Done\<rparr>] \<rparr>))
         else sys)"

subsection \<open>\<open>POST /api/upload\<close>\<close>

text \<open>The chain of tests on the lower-cased extension; \<open>None\<close> is the final \<open>else\<close>.\<close>

definition fileType_of_extension :: "string \<Rightarrow> string option" where
  "fileType_of_extension fileExtension =
     (if fileExtension \<in> set [''.pdf''] then Some ''PDF''
      else if fileExtension \<in> set [''.eml'', ''.msg''] then Some ''Email''
      else if fileExtension \<in> set [''.json''] then Some ''JSON''
      else None)"

definition upload_insert :: "multer_file \<Rightarrow> string \<Rightarrow> insert_processed_file" where
  "upload_insert file fileType =
     \<lparr> ipf_filename = mf_filename file,
       ipf_originalName = mf_originalname file,
       ipf_fileType = fileType,
       ipf_size = mf_size file,
       ipf_status = ''pending'',
       ipf_classificationResult = None,
       ipf_extractedData = None,
       ipf_businessIntent = None,
       ipf_priority = Some ''low'',
       ipf_agentAssigned = None \<rparr>"

definition unsupported_message :: string where
  "unsupported_message =
     ''Unsupported file type. Please upload PDF, Email (.eml, .msg), or JSON files.''"

definition success_message :: string where
  "success_message = ''File uploaded successfully and processing started''"

text \<open>
  The handler up to \<open>await storage.createProcessedFile(...)\<close>. It answers at once
  (\<open>Some\<close> response) when there is no file or the extension is not accepted; otherwise
  the record is stored and the handler is suspended (\<open>None\<close>: no response yet). Nothing
  in the \<open>try\<close> block throws, so the \<open>catch\<close> with status 500 is never entered.
\<close>

definition upload_begin ::
  "system \<Rightarrow> date \<Rightarrow> multer_file option \<Rightarrow> system \<times> http_response option" where
  "upload_begin sys now req_file =
     (case req_file of
        None \<Rightarrow> (sys, Some (400, BodyError ''No file uploaded''))
      | Some file \<Rightarrow>
          (let fileExtension = toLowerCase (extname (mf_originalname file))
           in case fileType_of_extension fileExtension of
                None \<Rightarrow> (sys, Some (400, BodyError unsupported_message))
              | Some fileType \<Rightarrow>
                  (case createProcessedFile (store sys) now (upload_insert file fileType) of
                     (s1, processedFile) \<Rightarrow>
                       (sys\<lparr> store := s1,
                             runs := runs sys @
                               [\<lparr> run_fileId = pf_id processedFile,
                                  run_filePath = mf_path file,
                                  run_fileType = fileType,
                                  run_stage = AwaitCreate \<rparr>] \<rparr>,
                        None))))"

text \<open>
  The rest of the handler for document \<open>n\<close>: \<open>processFileWithAI\<close> is called without
  \<open>await\<close>, so it runs to its first \<open>await\<close> and stays suspended there, and the response
  is sent.
\<close>

definition upload_continue :: "system \<Rightarrow> nat \<Rightarrow> date \<Rightarrow> system \<times> http_response" where
  "upload_continue sys n now =
     (let r = runs sys ! n
      in case processFileWithAI_call (store sys) now (run_fileId r) of
           (s2, st) \<Rightarrow>
             (sys\<lparr> store := s2, runs := (runs sys)[n := r\<lparr>run_stage := st\<rparr>] \<rparr>,
              (200, BodySuccess True (run_fileId r) success_message)))"

subsection \<open>The server as a transition system\<close>

text \<open>
  What can happen next: a request to the upload route, the resumption of a suspended
  document (of the handler when it is at \<open>AwaitCreate\<close>, of \<open>processFileWithAI\<close> later),
  the \<open>close\<close> event of a child. An event for a document that is not at the matching
  point changes nothing.
\<close>

datatype event =
    EvUpload date "multer_file option"
  | EvResume nat date bool
  | EvClose nat "int option"

fun step :: "system \<Rightarrow> event \<Rightarrow> system" where
  "step sys (EvUpload now req_file) = fst (upload_begin sys now req_file)"
| "step sys (EvResume n now spawnThrows) =
     (if n < length (runs sys)
      then (if run_stage (runs sys ! n) = AwaitCreate then fst (upload_continue sys n now)
            else resume sys n now spawnThrows)
      else sys)"
| "step sys (EvClose n code) =
     (if n < length (runs sys) then on_close sys n code else sys)"

definition run_events :: "system \<Rightarrow> event list \<Rightarrow> system" where
  "run_events sys evs = foldl step sys evs"

section \<open>Properties stated about the model\<close>

text \<open>The status of the stored file with key \<open>i\<close>, if there is one.\<close>

definition file_status :: "storage \<Rightarrow> int \<Rightarrow> string option" where
  "file_status s i = map_option pf_status (getProcessedFile s i)"

text \<open>The store holds the record that \<open>processFileWithAI\<close> writes before it spawns.\<close>

definition has_start_activity :: "storage \<Rightarrow> int \<Rightarrow> bool" where
  "has_start_activity s i \<longleftrightarrow>
     (\<exists>a \<in> set (Map_values (agentActivities s)).
        aa_fileId a = Some i \<and> aa_agentName a = ''Classifier Agent'' \<and>
        aa_action a = ''Start Processing'')"

text \<open>An activity record that documents a failure: its status or its error message says so.\<close>

definition documents_failure :: "agent_activity \<Rightarrow> bool" where
  "documents_failure a \<longleftrightarrow> aa_status a = ''failed'' \<or> aa_errorMessage a \<noteq> None"

text \<open>Keys handed out so far lie below the counter.\<close>

definition ids_below_counter :: "storage \<Rightarrow> bool" where
  "ids_below_counter s \<longleftrightarrow>
     (\<forall>k \<in> fst ` set (processedFiles s). k < currentId s) \<and>
     (\<forall>k \<in> fst ` set (agentActivities s). k < currentId s)"

text \<open>What the point of suspension of a document says about the store.\<close>

fun stage_ok :: "storage \<Rightarrow> int \<Rightarrow> stage \<Rightarrow> bool" where
  "stage_ok s i AwaitCreate = (file_status s i = Some ''pending'')"
| "stage_ok s i AwaitUpdate = (file_status s i = Some ''processing'')"
| "stage_ok s i AwaitUpdateRejected = False"
| "stage_ok s i AwaitActivity =
     (file_status s i = Some ''processing'' \<and> has_start_activity s i)"
| "stage_ok s i ChildRunning =
     (file_status s i = Some ''processing'' \<and> has_start_activity s i)"
| "stage_ok s i Done = has_start_activity s i"

definition system_invariant :: "system \<Rightarrow> bool" where
  "system_invariant sys \<longleftrightarrow>
     ids_below_counter (store sys) \<and>
     distinct (map run_fileId (runs sys)) \<and>
     (\<forall>r \<in> set (runs sys).
        run_fileId r < currentId (store sys) \<and>
        stage_ok (store sys) (run_fileId r) (run_stage r)) \<and>
     (\<forall>(k, f) \<in> set (processedFiles (store sys)).
        pf_status f \<in> {''pending'', ''processing'', ''failed''} \<and>
        (pf_status f = ''failed'' \<longrightarrow> has_start_activity (store sys) k)) \<and>
     (\<forall>(i, p, t) \<in> set (spawned sys). has_start_activity (store sys) i)"

text \<open>The fields of an insert record as they appear in the record created from it.\<close>

definition insert_fields_copied :: "insert_processed_file \<Rightarrow> processed_file \<Rightarrow> bool" where
  "insert_fields_copied f r \<longleftrightarrow>
     pf_filename r = ipf_filename f \<and> pf_originalName r = ipf_originalName f \<and>
     pf_fileType r = ipf_fileType f \<and> pf_size r = ipf_size f \<and> pf_status r = ipf_status f \<and>
     pf_classificationResult r = ipf_classificationResult f \<and>
     pf_extractedData r = ipf_extractedData f \<and> pf_businessIntent r = ipf_businessIntent f \<and>
     pf_priority r = ipf_priority f \<and> pf_agentAssigned r = ipf_agentAssigned f"

text \<open>Every field whose key is absent from the updates is as it was.\<close>

definition file_fields_kept ::
  "processed_file_partial \<Rightarrow> processed_file \<Rightarrow> processed_file \<Rightarrow> bool" where
  "file_fields_kept u e r \<longleftrightarrow>
   (pfu_id u = None \<longrightarrow> pf_id r = pf_id e) \<and>
   (pfu_filename u = None \<longrightarrow> pf_filename r = pf_filename e) \<and>
   (pfu_originalName u = None \<longrightarrow> pf_originalName r = pf_originalName e) \<and>
   (pfu_fileType u = None \<longrightarrow> pf_fileType r = pf_fileType e) \<and>
   (pfu_size u = None \<longrightarrow> pf_size r = pf_size e) \<and>
   (pfu_uploadedAt u = None \<longrightarrow> pf_uploadedAt r = pf_uploadedAt e) \<and>
   (pfu_processedAt u = None \<longrightarrow> pf_processedAt r = pf_processedAt e) \<and>
   (pfu_status u = None \<longrightarrow> pf_status r = pf_status e) \<and>
   (pfu_classificationResult u = None \<longrightarrow>
      pf_classificationResult r = pf_classificationResult e) \<and>
   (pfu_extractedData u = None \<longrightarrow> pf_extractedData r = pf_extractedData e) \<and>
   (pfu_businessIntent u = None \<longrightarrow> pf_businessIntent r = pf_businessIntent e) \<and>
   (pfu_priority u = None \<longrightarrow> pf_priority r = pf_priority e) \<and>
   (pfu_agentAssigned u = None \<longrightarrow> pf_agentAssigned r = pf_agentAssigned e)"

definition action_fields_kept ::
  "triggered_action_partial \<Rightarrow> triggered_action \<Rightarrow> triggered_action \<Rightarrow> bool" where
  "action_fields_kept u e r \<longleftrightarrow>
   (tau_id u = None \<longrightarrow> ta_id r = ta_id e) \<and>
   (tau_fileId u = None \<longrightarrow> ta_fileId r = ta_fileId e) \<and>
   (tau_actionType u = None \<longrightarrow> ta_actionType r = ta_actionType e) \<and>
   (tau_description u = None \<longrightarrow> ta_description r = ta_description e) \<and>
   (tau_priority u = None \<longrightarrow> ta_priority r = ta_priority e) \<and>
   (tau_status u = None \<longrightarrow> ta_status r = ta_status e) \<and>
   (tau_externalApiCall u = None \<longrightarrow> ta_externalApiCall r = ta_externalApiCall e) \<and>
   (tau_timestamp u = None \<longrightarrow> ta_timestamp r = ta_timestamp e) \<and>
   (tau_metadata u = None \<longrightarrow> ta_metadata r = ta_metadata e)"

text \<open>How the status of one file may differ before and after one step of the server.\<close>

definition status_move :: "string option \<Rightarrow> string option \<Rightarrow> bool" where
  "status_move before after \<longleftrightarrow>
     after = before \<or>
     (before = None \<and> after = Some ''pending'') \<or>
     (before = Some ''pending'' \<and> after = Some ''processing'') \<or>
     (before = Some ''processing'' \<and> after = Some ''failed'')"

text \<open>The extensions that the upload handler accepts, after lower-casing.\<close>

definition accepted_extensions :: "string set" where
  "accepted_extensions = {''.pdf'', ''.eml'', ''.msg'', ''.json''}"

text \<open>
  The content signature of a PDF file, the bytes \<open>%PDF\<close> at its start. The upload
  handler has no such test; the definition serves to state what it does not check.
\<close>

definition spec_pdf_signature :: "string \<Rightarrow> bool" where
  "spec_pdf_signature bytes \<longleftrightarrow> take 4 bytes = ''%PDF''"

section \<open>Example inputs\<close>

text \<open>Four uploads with no content at all, and one with an upper-case extension.\<close>

definition example_pdf :: multer_file where
  "example_pdf = \<lparr> mf_originalname = ''report.pdf'', mf_filename = ''a1'',
     mf_path = ''uploads/a1'', mf_size = 0, mf_bytes = [] \<rparr>"

definition example_eml :: multer_file where
  "example_eml = \<lparr> mf_originalname = ''mail.eml'', mf_filename = ''a2'',
     mf_path = ''uploads/a2'', mf_size = 0, mf_bytes = [] \<rparr>"

definition example_json :: multer_file where
  "example_json = \<lparr> mf_originalname = ''data.json'', mf_filename = ''a3'',
     mf_path = ''uploads/a3'', mf_size = 0, mf_bytes = [] \<rparr>"

definition example_txt :: multer_file where
  "example_txt = \<lparr> mf_originalname = ''notes.txt'', mf_filename = ''a4'',
     mf_path = ''uploads/a4'', mf_size = 0, mf_bytes = [] \<rparr>"

definition example_upper :: multer_file where
  "example_upper = \<lparr> mf_originalname = ''Invoice.PDF'', mf_filename = ''a5'',
     mf_path = ''uploads/a5'', mf_size = 5, mf_bytes = ''hello'' \<rparr>"

text \<open>A store with one file (id 1) and one triggered action (id 2).\<close>

definition example_action :: insert_triggered_action where
  "example_action = \<lparr> ita_fileId = Some 1, ita_actionType = ''log'',
     ita_description = ''logged'', ita_priority = ''low'', ita_status = ''pending'',
     ita_externalApiCall = None, ita_metadata = None \<rparr>"

definition example_ops :: "(date \<times> storage_op) list" where
  "example_ops =
     [(1000, OpCreateProcessedFile (upload_insert example_pdf ''PDF'')),
      (1001, OpCreateTriggeredAction example_action)]"

definition example_store :: storage where
  "example_store = fst (run_ops MemStorage example_ops)"

definition example_file_updates :: processed_file_partial where
  "example_file_updates = no_file_updates\<lparr> pfu_status := Some ''completed'' \<rparr>"

definition example_action_updates :: triggered_action_partial where
  "example_action_updates =
     \<lparr> tau_id = None, tau_fileId = None, tau_actionType = None, tau_description = None,
       tau_priority = None, tau_status = Some ''completed'', tau_externalApiCall = None,
       tau_timestamp = None, tau_metadata = None \<rparr>"

text \<open>
  One document through the server: uploaded, the handler resumed, the activity written,
  the child spawned, the child closed with exit code 1.
\<close>

definition example_events :: "event list" where
  "example_events =
     [EvUpload 1000 (Some example_pdf), EvResume 0 1001 False, EvResume 0 1002 False,
      EvResume 0 1003 False, EvClose 0 (Some 1)]"

definition example_uploaded :: system where
  "example_uploaded = run_events initial_system (take 1 example_events)"

definition example_logged :: system where
  "example_logged = run_events initial_system (take 3 example_events)"

definition example_running :: system where
  "example_running = run_events initial_system (take 4 example_events)"

definition example_failed :: system where
  "example_failed = run_events initial_system example_events"

section \<open>The store: maps\<close>

lemma Map_get_set: "Map_get (Map_set m k v) k' = (if k' = k then Some v else Map_get m k')"
  by (simp add: Map_get_def Map_set_def update_conv')

lemma Map_set_keys_present:
  "Map_get m k = Some e \<Longrightarrow> map fst (Map_set m k v) = map fst m"
  by (auto simp: Map_get_def Map_set_def update_keys dest: map_of_SomeD intro: rev_image_eqI)

lemma Map_set_fresh: "k \<notin> fst ` set m \<Longrightarrow> Map_set m k v = m @ [(k, v)]"
  unfolding Map_set_def by (induction m) auto

lemma Map_get_None_iff: "Map_get m k = None \<longleftrightarrow> k \<notin> fst ` set m"
  by (simp add: Map_get_def map_of_eq_None_iff)

lemma keys_Map_set: "fst ` set (Map_set m k v) = insert k (fst ` set m)"
  by (simp add: Map_set_def dom_update)

lemma set_Map_set: "set (Map_set m k v) \<subseteq> insert (k, v) (set m)"
  unfolding Map_set_def by (induction m) auto

section \<open>The store: updates\<close>

lemma updateProcessedFile_missing:
  "getProcessedFile s i = None \<Longrightarrow> updateProcessedFile s i u = (s, Inl (ProcessedFileNotFound i))"
  by (simp add: updateProcessedFile_def getProcessedFile_def)

lemma updateProcessedFile_present:
  "getProcessedFile s i = Some e \<Longrightarrow>
   updateProcessedFile s i u =
     (s\<lparr>processedFiles := Map_set (processedFiles s) i (spread_processed_file e u)\<rparr>,
      Inr (spread_processed_file e u))"
  by (simp add: updateProcessedFile_def getProcessedFile_def Let_def)

lemma updateTriggeredAction_missing:
  "Map_get (triggeredActions s) i = None \<Longrightarrow>
   updateTriggeredAction s i u = (s, Inl (TriggeredActionNotFound i))"
  by (simp add: updateTriggeredAction_def)

lemma updateTriggeredAction_present:
  "Map_get (triggeredActions s) i = Some e \<Longrightarrow>
   updateTriggeredAction s i u =
     (s\<lparr>triggeredActions := Map_set (triggeredActions s) i (spread_triggered_action e u)\<rparr>,
      Inr (spread_triggered_action e u))"
  by (simp add: updateTriggeredAction_def Let_def)

lemma spread_file_kept: "file_fields_kept u e (spread_processed_file e u)"
  by (simp add: file_fields_kept_def spread_processed_file_def)

lemma spread_action_kept: "action_fields_kept u e (spread_triggered_action e u)"
  by (simp add: action_fields_kept_def spread_triggered_action_def)

lemma updateProcessedFile_frame:
  assumes "updateProcessedFile s i u = (s', res)"
  shows "users s' = users s \<and> agentActivities s' = agentActivities s \<and>
         triggeredActions s' = triggeredActions s \<and> systemMetrics s' = systemMetrics s \<and>
         currentId s' = currentId s \<and> map fst (processedFiles s') = map fst (processedFiles s) \<and>
         (\<forall>j. j \<noteq> i \<longrightarrow> getProcessedFile s' j = getProcessedFile s j)"
proof (cases "getProcessedFile s i")
  case None
  with assms show ?thesis by (simp add: updateProcessedFile_missing)
next
  case (Some e)
  then have "Map_get (processedFiles s) i = Some e" by (simp add: getProcessedFile_def)
  from Map_set_keys_present[OF this] assms Some show ?thesis
    by (auto simp: updateProcessedFile_present getProcessedFile_def Map_get_set)
qed

lemma updateTriggeredAction_frame:
  assumes "updateTriggeredAction s i u = (s', res)"
  shows "users s' = users s \<and> agentActivities s' = agentActivities s \<and>
         processedFiles s' = processedFiles s \<and> systemMetrics s' = systemMetrics s \<and>
         currentId s' = currentId s \<and>
         map fst (triggeredActions s') = map fst (triggeredActions s) \<and>
         (\<forall>j. j \<noteq> i \<longrightarrow> Map_get (triggeredActions s') j = Map_get (triggeredActions s) j)"
proof (cases "Map_get (triggeredActions s) i")
  case None
  with assms show ?thesis by (simp add: updateTriggeredAction_missing)
next
  case (Some e)
  from Map_set_keys_present[OF this] assms Some show ?thesis
    by (auto simp: updateTriggeredAction_present Map_get_set)
qed

text \<open>
  Claim C9. \<open>updateProcessedFile\<close> and \<open>updateTriggeredAction\<close> throw exactly when the
  store has no record under the given id. When they throw, the store after the call is
  the store before it. When they succeed, the record returned and stored under the id is
  the old record overlaid with the updates, every field whose key is absent from the
  updates is as it was, every record under another id is as it was, the map has the same
  keys in the same order, and the other collections and the counter are untouched.
\<close>

theorem update_throws_iff_absent:
  "(case updateProcessedFile s i u of (s', res) \<Rightarrow>
      (isl res \<longleftrightarrow> getProcessedFile s i = None) \<and>
      (isl res \<longrightarrow> s' = s) \<and>
      (\<forall>e. getProcessedFile s i = Some e \<longrightarrow>
           res = Inr (spread_processed_file e u) \<and>
           getProcessedFile s' i = Some (spread_processed_file e u) \<and>
           file_fields_kept u e (spread_processed_file e u)) \<and>
      (\<forall>j. j \<noteq> i \<longrightarrow> getProcessedFile s' j = getProcessedFile s j) \<and>
      map fst (processedFiles s') = map fst (processedFiles s) \<and>
      users s' = users s \<and> agentActivities s' = agentActivities s \<and>
      triggeredActions s' = triggeredActions s \<and> systemMetrics s' = systemMetrics s \<and>
      currentId s' = currentId s) \<and>
   (case updateTriggeredAction s i' u' of (s', res) \<Rightarrow>
      (isl res \<longleftrightarrow> Map_get (triggeredActions s) i' = None) \<and>
      (isl res \<longrightarrow> s' = s) \<and>
      (\<forall>e. Map_get (triggeredActions s) i' = Some e \<longrightarrow>
           res = Inr (spread_triggered_action e u') \<and>
           Map_get (triggeredActions s') i' = Some (spread_triggered_action e u') \<and>
           action_fields_kept u' e (spread_triggered_action e u')) \<and>
      (\<forall>j. j \<noteq> i' \<longrightarrow> Map_get (triggeredActions s') j = Map_get (triggeredActions s) j) \<and>
      map fst (triggeredActions s') = map fst (triggeredActions s) \<and>
      users s' = users s \<and> agentActivities s' = agentActivities s \<and>
      processedFiles s' = processedFiles s \<and> systemMetrics s' = systemMetrics s \<and>
      currentId s' = currentId s)"
proof -
  obtain s1 r1 where a: "updateProcessedFile s i u = (s1, r1)"
    by (cases "updateProcessedFile s i u")
  obtain s2 r2 where b: "updateTriggeredAction s i' u' = (s2, r2)"
    by (cases "updateTriggeredAction s i' u'")
  have a1: "isl r1 \<longleftrightarrow> getProcessedFile s i = None"
    using a by (cases "getProcessedFile s i")
      (auto simp: updateProcessedFile_missing updateProcessedFile_present)
  have a2: "isl r1 \<longrightarrow> s1 = s"
    using a by (cases "getProcessedFile s i")
      (auto simp: updateProcessedFile_missing updateProcessedFile_present)
  have a3: "\<forall>e. getProcessedFile s i = Some e \<longrightarrow>
           r1 = Inr (spread_processed_file e u) \<and>
           getProcessedFile s1 i = Some (spread_processed_file e u) \<and>
           file_fields_kept u e (spread_processed_file e u)"
    using a
    by (auto simp: updateProcessedFile_present getProcessedFile_def Map_get_set spread_file_kept)
  have b1: "isl r2 \<longleftrightarrow> Map_get (triggeredActions s) i' = None"
    using b by (cases "Map_get (triggeredActions s) i'")
      (auto simp: updateTriggeredAction_missing updateTriggeredAction_present)
  have b2: "isl r2 \<longrightarrow> s2 = s"
    using b by (cases "Map_get (triggeredActions s) i'")
      (auto simp: updateTriggeredAction_missing updateTriggeredAction_present)
  have b3: "\<forall>e. Map_get (triggeredActions s) i' = Some e \<longrightarrow>
           r2 = Inr (spread_triggered_action e u') \<and>
           Map_get (triggeredActions s2) i' = Some (spread_triggered_action e u') \<and>
           action_fields_kept u' e (spread_triggered_action e u')"
    using b by (auto simp: updateTriggeredAction_present Map_get_set spread_action_kept)
  show ?thesis
    unfolding a b prod.case
    using a1 a2 a3 b1 b2 b3 updateProcessedFile_frame[OF a] updateTriggeredAction_frame[OF b]
    by blast
qed

text \<open>
  The theorem at the example store, once with ids that are present (file 1, action 2)
  and once with ids that are absent (7 and 8).
\<close>

theorem update_throws_iff_absent_witness:
  "getProcessedFile example_store 7 = None \<and>
   Map_get (triggeredActions example_store) 8 = None \<and>
   isl (snd (updateProcessedFile example_store 7 example_file_updates)) \<and>
   fst (updateProcessedFile example_store 7 example_file_updates) = example_store \<and>
   isl (snd (updateTriggeredAction example_store 8 example_action_updates)) \<and>
   fst (updateTriggeredAction example_store 8 example_action_updates) = example_store \<and>
   getProcessedFile example_store 1 \<noteq> None \<and>
   Map_get (triggeredActions example_store) 2 \<noteq> None \<and>
   \<not> isl (snd (updateProcessedFile example_store 1 example_file_updates)) \<and>
   \<not> isl (snd (updateTriggeredAction example_store 2 example_action_updates)) \<and>
   map_option pf_status
     (getProcessedFile (fst (updateProcessedFile example_store 1 example_file_updates)) 1)
     = Some ''completed'' \<and>
   map_option pf_originalName
     (getProcessedFile (fst (updateProcessedFile example_store 1 example_file_updates)) 1)
     = Some ''report.pdf''"
proof -
  have absent: "getProcessedFile example_store 7 = None"
    "Map_get (triggeredActions example_store) 8 = None"
    by code_simp+
  have present: "getProcessedFile example_store 1 \<noteq> None"
    "Map_get (triggeredActions example_store) 2 \<noteq> None"
    by code_simp+
  have vals: "map_option pf_status
     (getProcessedFile (fst (updateProcessedFile example_store 1 example_file_updates)) 1)
     = Some ''completed''"
    "map_option pf_originalName
     (getProcessedFile (fst (updateProcessedFile example_store 1 example_file_updates)) 1)
     = Some ''report.pdf''"
    by code_simp+
  from absent present vals
    update_throws_iff_absent[where s = example_store and i = 7 and u = example_file_updates
      and i' = 8 and u' = example_action_updates]
    update_throws_iff_absent[where s = example_store and i = 1 and u = example_file_updates
      and i' = 2 and u' = example_action_updates]
  show ?thesis
    by (simp split: prod.splits)
qed

section \<open>The store: creation and the counter\<close>

lemma exec_op_counter:
  "exec_op s now op = (s', assigned) \<Longrightarrow>
   (case assigned of None \<Rightarrow> currentId s' = currentId s
    | Some i \<Rightarrow> i = currentId s \<and> currentId s' = currentId s + 1)"
  by (cases op)
     (auto simp: createUser_def createProcessedFile_def createAgentActivity_def
        createTriggeredAction_def createSystemMetric_def updateProcessedFile_def
        updateTriggeredAction_def Let_def split: option.splits)

lemma run_ops_ids_sorted:
  "sorted_wrt (<) (snd (run_ops s ops)) \<and> (\<forall>i \<in> set (snd (run_ops s ops)). currentId s \<le> i)"
proof (induction ops arbitrary: s)
  case Nil
  show ?case by simp
next
  case (Cons p ops)
  obtain now op where p: "p = (now, op)" by (cases p)
  obtain s1 assigned where e: "exec_op s now op = (s1, assigned)" by (cases "exec_op s now op")
  obtain s2 ids where r: "run_ops s1 ops = (s2, ids)" by (cases "run_ops s1 ops")
  from Cons.IH[of s1] r have ih: "sorted_wrt (<) ids" "\<forall>i \<in> set ids. currentId s1 \<le> i"
    by simp_all
  show ?case
  proof (cases assigned)
    case None
    with exec_op_counter[OF e] ih p e r show ?thesis by simp
  next
    case (Some i)
    with exec_op_counter[OF e] have "i = currentId s" "currentId s1 = currentId s + 1"
      by simp_all
    with ih p e r Some show ?thesis by fastforce
  qed
qed

lemma createProcessedFile_roundtrip:
  "createProcessedFile s now f = (s', r) \<Longrightarrow>
     insert_fields_copied f r \<and> pf_id r = currentId s \<and> pf_uploadedAt r = now \<and>
     pf_processedAt r = None \<and> getProcessedFile s' (pf_id r) = Some r"
  by (auto simp: createProcessedFile_def insert_fields_copied_def getProcessedFile_def
        Map_get_set Let_def)

lemma run_ops_counter_range:
  "currentId s \<le> currentId (fst (run_ops s ops)) \<and>
   currentId (fst (run_ops s ops)) \<le> currentId s + int (length ops)"
proof (induction ops arbitrary: s)
  case Nil
  show ?case by simp
next
  case (Cons p ops)
  obtain now op where p: "p = (now, op)" by (cases p)
  obtain s1 assigned where e: "exec_op s now op = (s1, assigned)" by (cases "exec_op s now op")
  have c: "currentId s \<le> currentId s1 \<and> currentId s1 \<le> currentId s + 1"
    using exec_op_counter[OF e] by (cases assigned) simp_all
  have "fst (run_ops s (p # ops)) = fst (run_ops s1 ops)"
    by (simp add: p e split: prod.splits)
  with Cons.IH[of s1] c show ?case by simp
qed

text \<open>
  Claim C8. The counter of the code is a double, which counts exactly up to \<open>2 ^ 53\<close>;
  the statement is for the stores and call sequences that keep it below that bound, where
  the integer counter of the model and the counter of the code are the same. For every
  such store and every insert record, \<open>createProcessedFile\<close> returns a record that has
  the fields of the insert record, the counter as its id, the time of the call as
  \<open>uploadedAt\<close> and no \<open>processedAt\<close>; \<open>getProcessedFile\<close> on that id, in the store
  after the call, returns that very record. Along any sequence of calls of the storage
  interface, whatever the kinds of record created, the ids assigned are strictly
  increasing, hence pairwise distinct, none is below the counter at the start, and the
  counter stays below the bound.
\<close>

theorem create_get_roundtrip:
  assumes "- (2 ^ 53) \<le> currentId s" and "currentId s + int (length ops) < 2 ^ 53"
  shows "(case createProcessedFile s now f of (s', r) \<Rightarrow>
            insert_fields_copied f r \<and> pf_id r = currentId s \<and> pf_uploadedAt r = now \<and>
            pf_processedAt r = None \<and> getProcessedFile s' (pf_id r) = Some r) \<and>
         sorted_wrt (<) (snd (run_ops s ops)) \<and> distinct (snd (run_ops s ops)) \<and>
         (\<forall>i \<in> set (snd (run_ops s ops)). currentId s \<le> i) \<and>
         currentId (fst (run_ops s ops)) < 2 ^ 53"
proof -
  obtain s' r where c: "createProcessedFile s now f = (s', r)"
    by (cases "createProcessedFile s now f")
  have srt: "sorted_wrt (<) (snd (run_ops s ops))"
    and low: "\<forall>i \<in> set (snd (run_ops s ops)). currentId s \<le> i"
    using run_ops_ids_sorted[of s ops] by simp_all
  from srt have dst: "distinct (snd (run_ops s ops))"
    by (simp add: strict_sorted_iff)
  have rng: "currentId (fst (run_ops s ops)) < 2 ^ 53"
    using run_ops_counter_range[of s ops] assms(2) by linarith
  show ?thesis
    using createProcessedFile_roundtrip[OF c] srt dst low rng unfolding c prod.case by blast
qed

text \<open>
  The theorem at the fresh store with the two example calls, and at the example store
  (counter 3) with one more file.
\<close>

theorem create_get_roundtrip_witness:
  "- (2 ^ 53) \<le> currentId MemStorage \<and>
   currentId MemStorage + int (length example_ops) < 2 ^ 53 \<and>
   - (2 ^ 53) \<le> currentId example_store \<and>
   currentId example_store + int (length ([] :: (date \<times> storage_op) list)) < 2 ^ 53 \<and>
   snd (run_ops MemStorage example_ops) = [1, 2] \<and>
   sorted_wrt (<) (snd (run_ops MemStorage example_ops)) \<and>
   distinct (snd (run_ops MemStorage example_ops)) \<and>
   pf_id (snd (createProcessedFile example_store 1002 (upload_insert example_eml ''Email''))) = 3 \<and>
   getProcessedFile
     (fst (createProcessedFile example_store 1002 (upload_insert example_eml ''Email''))) 3
   = Some (snd (createProcessedFile example_store 1002 (upload_insert example_eml ''Email'')))"
proof -
  have ids: "snd (run_ops MemStorage example_ops) = [1, 2]" by code_simp
  have c: "currentId example_store = 3" by code_simp
  have m: "currentId MemStorage = 1" by (simp add: MemStorage_def)
  have l: "length example_ops = 2" by (simp add: example_ops_def)
  have b1: "- (2 ^ 53) \<le> currentId MemStorage"
    and b2: "currentId MemStorage + int (length example_ops) < 2 ^ 53"
    unfolding m l by simp_all
  have b3: "- (2 ^ 53) \<le> currentId example_store"
    and b4: "currentId example_store + int (length ([] :: (date \<times> storage_op) list)) < 2 ^ 53"
    unfolding c by simp_all
  from ids c b1 b2 b3 b4
    create_get_roundtrip[OF b3 b4, where now = 1002 and f = "upload_insert example_eml ''Email''"]
    create_get_roundtrip[OF b1 b2, where now = 1002 and f = "upload_insert example_eml ''Email''"]
  show ?thesis
    by (simp split: prod.splits)
qed

section \<open>The store: the activity log\<close>

lemma createAgentActivity_effect:
  assumes "createAgentActivity s now a = (s', r)"
    "\<forall>k \<in> fst ` set (agentActivities s). k < currentId s"
  shows "processedFiles s' = processedFiles s" "currentId s' = currentId s + 1"
    "agentActivities s' = agentActivities s @ [(currentId s, r)]"
    "aa_fileId r = iaa_fileId a" "aa_agentName r = iaa_agentName a" "aa_action r = iaa_action a"
    "aa_status r = iaa_status a" "aa_errorMessage r = iaa_errorMessage a"
    "users s' = users s" "triggeredActions s' = triggeredActions s"
    "systemMetrics s' = systemMetrics s"
proof -
  have "currentId s \<notin> fst ` set (agentActivities s)" using assms(2) by auto
  from Map_set_fresh[OF this] assms(1)
  show "processedFiles s' = processedFiles s" "currentId s' = currentId s + 1"
    "agentActivities s' = agentActivities s @ [(currentId s, r)]"
    "aa_fileId r = iaa_fileId a" "aa_agentName r = iaa_agentName a" "aa_action r = iaa_action a"
    "aa_status r = iaa_status a" "aa_errorMessage r = iaa_errorMessage a"
    "users s' = users s" "triggeredActions s' = triggeredActions s"
    "systemMetrics s' = systemMetrics s"
    by (auto simp: createAgentActivity_def Let_def)
qed

lemma createProcessedFile_effect:
  assumes "createProcessedFile s now f = (s', r)"
  shows "agentActivities s' = agentActivities s" "currentId s' = currentId s + 1"
    "pf_id r = currentId s" "pf_status r = ipf_status f"
    "fst ` set (processedFiles s') = insert (currentId s) (fst ` set (processedFiles s))"
    "file_status s' j = (if j = currentId s then Some (ipf_status f) else file_status s j)"
    "set (processedFiles s') \<subseteq> insert (currentId s, r) (set (processedFiles s))"
    "users s' = users s" "triggeredActions s' = triggeredActions s"
    "systemMetrics s' = systemMetrics s"
    "processedFiles s' = Map_set (processedFiles s) (currentId s) r"
proof -
  show p: "processedFiles s' = Map_set (processedFiles s) (currentId s) r"
    using assms by (auto simp: createProcessedFile_def Let_def)
  show "agentActivities s' = agentActivities s" "currentId s' = currentId s + 1"
    "pf_id r = currentId s" "pf_status r = ipf_status f"
    "users s' = users s" "triggeredActions s' = triggeredActions s"
    "systemMetrics s' = systemMetrics s"
    using assms by (auto simp: createProcessedFile_def Let_def)
  then show "file_status s' j = (if j = currentId s then Some (ipf_status f) else file_status s j)"
    by (simp add: file_status_def getProcessedFile_def p Map_get_set)
  show "fst ` set (processedFiles s') = insert (currentId s) (fst ` set (processedFiles s))"
    by (simp add: p keys_Map_set)
  show "set (processedFiles s') \<subseteq> insert (currentId s, r) (set (processedFiles s))"
    unfolding p by (rule set_Map_set)
qed

lemma exec_op_activities:
  assumes "ids_below_counter s"
  shows "ids_below_counter (fst (exec_op s now op)) \<and>
         prefix (agentActivities s) (agentActivities (fst (exec_op s now op)))"
proof (cases op)
  case (OpCreateAgentActivity a)
  obtain s' r where c: "createAgentActivity s now a = (s', r)"
    by (cases "createAgentActivity s now a")
  have "\<forall>k \<in> fst ` set (agentActivities s). k < currentId s"
    using assms by (simp add: ids_below_counter_def)
  note e = createAgentActivity_effect[OF c this]
  have "ids_below_counter s'"
    using assms unfolding ids_below_counter_def e(1) e(2) e(3) by fastforce
  then show ?thesis using OpCreateAgentActivity c e(3) by simp
next
  case (OpCreateProcessedFile f)
  obtain s' r where c: "createProcessedFile s now f = (s', r)"
    by (cases "createProcessedFile s now f")
  note e = createProcessedFile_effect[OF c]
  have "ids_below_counter s'"
    using assms unfolding ids_below_counter_def e(1) e(2) e(5) by fastforce
  then show ?thesis using OpCreateProcessedFile c e(1) by simp
next
  case (OpUpdateProcessedFile i u)
  obtain s' res where c: "updateProcessedFile s i u = (s', res)"
    by (cases "updateProcessedFile s i u")
  from updateProcessedFile_frame[OF c]
  have e: "agentActivities s' = agentActivities s" "currentId s' = currentId s"
    "map fst (processedFiles s') = map fst (processedFiles s)" by simp_all
  from e(3) have "set (map fst (processedFiles s')) = set (map fst (processedFiles s))"
    by simp
  then have "fst ` set (processedFiles s') = fst ` set (processedFiles s)" by simp
  then have "ids_below_counter s'"
    using assms unfolding ids_below_counter_def e(1) e(2) by simp
  then show ?thesis using OpUpdateProcessedFile c e(1) by simp
next
  case (OpUpdateTriggeredAction i u)
  with assms show ?thesis
    by (auto simp: updateTriggeredAction_def ids_below_counter_def Let_def
        split: option.splits)
qed (use assms in \<open>auto simp: createUser_def
        createTriggeredAction_def createSystemMetric_def ids_below_counter_def
        Let_def\<close>)

lemma run_ops_Cons_fst:
  "fst (run_ops s ((now, op) # ops)) = fst (run_ops (fst (exec_op s now op)) ops)"
  by (simp split: prod.splits)

lemma run_ops_activities:
  "ids_below_counter s \<Longrightarrow>
   ids_below_counter (fst (run_ops s ops)) \<and>
   prefix (agentActivities s) (agentActivities (fst (run_ops s ops)))"
proof (induction ops arbitrary: s)
  case Nil
  then show ?case by simp
next
  case (Cons p ops)
  obtain now op where p: "p = (now, op)" by (cases p)
  let ?s1 = "fst (exec_op s now op)"
  from exec_op_activities[OF Cons.prems, of now op]
  have 1: "ids_below_counter ?s1" and 2: "prefix (agentActivities s) (agentActivities ?s1)"
    by simp_all
  from Cons.IH[OF 1] have 3: "ids_below_counter (fst (run_ops ?s1 ops))"
    and 4: "prefix (agentActivities ?s1) (agentActivities (fst (run_ops ?s1 ops)))"
    by simp_all
  from 2 4 have "prefix (agentActivities s) (agentActivities (fst (run_ops ?s1 ops)))"
    by (rule prefix_order.trans)
  with 3 show ?case unfolding p run_ops_Cons_fst by simp
qed

lemma run_ops_append: "fst (run_ops s (ops @ ops')) = fst (run_ops (fst (run_ops s ops)) ops')"
proof (induction ops arbitrary: s)
  case Nil
  show ?case by simp
next
  case (Cons p ops)
  obtain now op where p: "p = (now, op)" by (cases p)
  show ?case unfolding p append_Cons run_ops_Cons_fst by (rule Cons.IH)
qed

lemma MemStorage_below: "ids_below_counter MemStorage"
  by (simp add: ids_below_counter_def MemStorage_def)

text \<open>
  Claim C4. The activity log is append-only under the storage interface: whatever calls
  \<open>ops\<close> have been made on a fresh store and whatever calls \<open>ops'\<close> follow, the log
  after \<open>ops\<close> is an initial segment of the log after \<open>ops @ ops'\<close>, so every activity
  once written is still stored under its id, unchanged, and in its place. (The interface
  has \<open>createAgentActivity\<close> and two read methods for activities and nothing else that
  touches them; \<open>exec_op\<close> covers every method of the interface.)
\<close>

theorem activities_append_only:
  "prefix (agentActivities (fst (run_ops MemStorage ops)))
          (agentActivities (fst (run_ops MemStorage (ops @ ops')))) \<and>
   (\<forall>k a. Map_get (agentActivities (fst (run_ops MemStorage ops))) k = Some a \<longrightarrow>
          Map_get (agentActivities (fst (run_ops MemStorage (ops @ ops')))) k = Some a)"
proof -
  let ?s = "fst (run_ops MemStorage ops)"
  have "ids_below_counter ?s"
    using run_ops_activities[OF MemStorage_below] by blast
  from run_ops_activities[OF this, of ops']
  have p: "prefix (agentActivities ?s) (agentActivities (fst (run_ops MemStorage (ops @ ops'))))"
    by (simp add: run_ops_append)
  then obtain new where
    "agentActivities (fst (run_ops MemStorage (ops @ ops'))) = agentActivities ?s @ new"
    by (auto simp: prefix_def)
  then have "\<forall>k a. Map_get (agentActivities ?s) k = Some a \<longrightarrow>
          Map_get (agentActivities (fst (run_ops MemStorage (ops @ ops')))) k = Some a"
    by (simp add: Map_get_def)
  with p show ?thesis by blast
qed

text \<open>
  The theorem at a log of one activity (id 1), followed by an update of a file, a second
  activity and an update of an action: the first activity is still there.
\<close>

theorem activities_append_only_witness:
  "Map_get (agentActivities (fst (run_ops MemStorage
       [(1000, OpCreateAgentActivity (start_activity (hd (runs example_uploaded))))]))) 1 \<noteq> None \<and>
   Map_get (agentActivities (fst (run_ops MemStorage
       ([(1000, OpCreateAgentActivity (start_activity (hd (runs example_uploaded))))] @
        [(1001, OpUpdateProcessedFile 1 example_file_updates),
         (1002, OpCreateAgentActivity (start_activity (hd (runs example_uploaded)))),
         (1003, OpUpdateTriggeredAction 1 example_action_updates)])))) 1
   = Map_get (agentActivities (fst (run_ops MemStorage
       [(1000, OpCreateAgentActivity (start_activity (hd (runs example_uploaded))))]))) 1"
proof -
  let ?ops = "[(1000, OpCreateAgentActivity (start_activity (hd (runs example_uploaded))))]"
  let ?ops' = "[(1001, OpUpdateProcessedFile 1 example_file_updates),
         (1002, OpCreateAgentActivity (start_activity (hd (runs example_uploaded)))),
         (1003, OpUpdateTriggeredAction 1 example_action_updates)]"
  have ex: "Map_get (agentActivities (fst (run_ops MemStorage ?ops))) 1 \<noteq> None"
    by code_simp
  then obtain a where a: "Map_get (agentActivities (fst (run_ops MemStorage ?ops))) 1 = Some a"
    by blast
  with activities_append_only[where ops = ?ops and ops' = ?ops']
  have "Map_get (agentActivities (fst (run_ops MemStorage (?ops @ ?ops')))) 1 = Some a"
    by blast
  with a ex show ?thesis by simp
qed

section \<open>The store: dashboard statistics\<close>

text \<open>
  Claim C10. \<open>getDashboardStats\<close> divides only behind its guards: on every store both
  quotients are ordinary numbers (never \<open>NaN\<close> or an infinity). With no files the success
  rate is 0, with no activities the average processing time is 0, and with no agent name
  in the log the number of active agents is reported as 4.
\<close>

theorem dashboard_total:
  "(\<exists>x y. successRate (getDashboardStats s today) = Num x \<and>
          averageProcessingTime (getDashboardStats s today) = Num y) \<and>
   (processedFiles s = [] \<longrightarrow> successRate (getDashboardStats s today) = Num 0) \<and>
   (agentActivities s = [] \<longrightarrow> averageProcessingTime (getDashboardStats s today) = Num 0) \<and>
   (set (map aa_agentName (Map_values (agentActivities s))) = {} \<longrightarrow>
      activeAgents (getDashboardStats s today) = 4)"
  by (simp add: getDashboardStats_def Let_def js_div_def Map_values_def)

theorem dashboard_total_witness:
  "processedFiles MemStorage = [] \<and> agentActivities MemStorage = [] \<and>
   set (map aa_agentName (Map_values (agentActivities MemStorage))) = {} \<and>
   successRate (getDashboardStats MemStorage 0) = Num 0 \<and>
   averageProcessingTime (getDashboardStats MemStorage 0) = Num 0 \<and>
   activeAgents (getDashboardStats MemStorage 0) = 4"
proof -
  have e: "processedFiles MemStorage = []" "agentActivities MemStorage = []"
    "set (map aa_agentName (Map_values (agentActivities MemStorage))) = {}"
    by (simp_all add: MemStorage_def Map_values_def)
  from e dashboard_total[where s = MemStorage and today = 0] show ?thesis by blast
qed

section \<open>The server: what each step does to the store\<close>

text \<open>What the writes of the handler and of \<open>processFileWithAI\<close> change.\<close>

lemma has_start_activity_mono:
  "prefix (agentActivities s) (agentActivities s') \<Longrightarrow> has_start_activity s i \<Longrightarrow>
   has_start_activity s' i"
  by (auto simp: has_start_activity_def Map_values_def prefix_def)

lemma stage_ok_mono:
  assumes "stage_ok s i st" "file_status s' i = file_status s i"
    "has_start_activity s i \<Longrightarrow> has_start_activity s' i"
  shows "stage_ok s' i st"
  using assms by (cases st) auto

lemma set_status_effect:
  assumes "updateProcessedFile s i u = (s', res)" "pfu_status u = Some x"
  shows "agentActivities s' = agentActivities s" "currentId s' = currentId s"
    "fst ` set (processedFiles s') = fst ` set (processedFiles s)"
    "file_status s' j = (if j = i \<and> file_status s i \<noteq> None then Some x else file_status s j)"
    "\<forall>(k, f) \<in> set (processedFiles s'). (k, f) \<in> set (processedFiles s) \<or> (k = i \<and> pf_status f = x)"
    "isl res \<longleftrightarrow> file_status s i = None"
    "users s' = users s" "triggeredActions s' = triggeredActions s"
    "systemMetrics s' = systemMetrics s"
proof -
  show "agentActivities s' = agentActivities s" "currentId s' = currentId s"
    "users s' = users s" "triggeredActions s' = triggeredActions s"
    "systemMetrics s' = systemMetrics s"
    using assms(1) by (auto simp: updateProcessedFile_def Let_def split: option.splits)
  show "fst ` set (processedFiles s') = fst ` set (processedFiles s)"
  proof (cases "getProcessedFile s i")
    case None
    with assms show ?thesis by (simp add: updateProcessedFile_missing)
  next
    case (Some e)
    then have "i \<in> fst ` set (processedFiles s)"
      using Map_get_None_iff[of "processedFiles s" i] by (simp add: getProcessedFile_def)
    moreover have "s' = s\<lparr>processedFiles := Map_set (processedFiles s) i (spread_processed_file e u)\<rparr>"
      using Some assms(1) by (simp add: updateProcessedFile_present)
    ultimately show ?thesis
      by (simp add: keys_Map_set insert_absorb)
  qed
  show "file_status s' j = (if j = i \<and> file_status s i \<noteq> None then Some x else file_status s j)"
    using assms
    by (cases "getProcessedFile s i")
      (auto simp: updateProcessedFile_missing updateProcessedFile_present file_status_def
        getProcessedFile_def Map_get_set spread_processed_file_def)
  show "\<forall>(k, f) \<in> set (processedFiles s'). (k, f) \<in> set (processedFiles s) \<or> (k = i \<and> pf_status f = x)"
  proof (cases "getProcessedFile s i")
    case None
    with assms show ?thesis by (auto simp: updateProcessedFile_missing)
  next
    case (Some e)
    have "pf_status (spread_processed_file e u) = x"
      using assms(2) by (simp add: spread_processed_file_def)
    with Some assms(1) set_Map_set[of "processedFiles s" i "spread_processed_file e u"]
    show ?thesis by (auto simp: updateProcessedFile_present)
  qed
  show "isl res \<longleftrightarrow> file_status s i = None"
    using assms(1)
    by (cases "getProcessedFile s i")
      (auto simp: updateProcessedFile_missing updateProcessedFile_present file_status_def)
qed

lemma file_status_cong:
  "processedFiles s' = processedFiles s \<Longrightarrow> file_status s' j = file_status s j"
  by (simp add: file_status_def getProcessedFile_def)

text \<open>Changing the point of suspension of one document keeps the ids of all.\<close>

lemma map_fileId_stage_update:
  "n < length rs \<Longrightarrow> map run_fileId (rs[n := (rs ! n)\<lparr>run_stage := st\<rparr>]) = map run_fileId rs"
  by (simp add: map_update list_update_same_conv)

lemma runs_stage_update:
  assumes d: "distinct (map run_fileId rs)" and n: "n < length rs"
    and old: "\<forall>r \<in> set rs. run_fileId r < currentId s \<and> stage_ok s (run_fileId r) (run_stage r)"
    and new: "run_fileId (rs ! n) < currentId s' \<and> stage_ok s' (run_fileId (rs ! n)) st"
    and frame: "\<And>j x. j \<noteq> run_fileId (rs ! n) \<Longrightarrow> j < currentId s \<and> stage_ok s j x \<Longrightarrow>
       j < currentId s' \<and> stage_ok s' j x"
  shows "\<forall>r \<in> set (rs[n := (rs ! n)\<lparr>run_stage := st\<rparr>]).
     run_fileId r < currentId s' \<and> stage_ok s' (run_fileId r) (run_stage r)"
proof
  fix r assume "r \<in> set (rs[n := (rs ! n)\<lparr>run_stage := st\<rparr>])"
  then obtain m where m: "m < length rs" "r = rs[n := (rs ! n)\<lparr>run_stage := st\<rparr>] ! m"
    by (auto simp: in_set_conv_nth)
  show "run_fileId r < currentId s' \<and> stage_ok s' (run_fileId r) (run_stage r)"
  proof (cases "m = n")
    case True
    with m n new show ?thesis by simp
  next
    case False
    with m have r: "r = rs ! m" by simp
    have "run_fileId (rs ! m) \<noteq> run_fileId (rs ! n)"
      using d m(1) n False by (metis distinct_conv_nth length_map nth_map)
    moreover have "run_fileId (rs ! m) < currentId s \<and>
        stage_ok s (run_fileId (rs ! m)) (run_stage (rs ! m))" using old m(1) by simp
    ultimately show ?thesis unfolding r by (rule frame)
  qed
qed

lemma inv_stage_change:
  assumes inv: "system_invariant sys" and n: "n < length (runs sys)"
    and sys': "store sys' = s'" "runs sys' = (runs sys)[n := (runs sys ! n)\<lparr>run_stage := st\<rparr>]"
    and ids: "ids_below_counter s'"
    and cur: "currentId (store sys) \<le> currentId s'"
    and new: "stage_ok s' (run_fileId (runs sys ! n)) st"
    and frame: "\<And>j. j \<noteq> run_fileId (runs sys ! n) \<Longrightarrow> file_status s' j = file_status (store sys) j"
    and act: "\<And>j. has_start_activity (store sys) j \<Longrightarrow> has_start_activity s' j"
    and files: "\<forall>(k, f) \<in> set (processedFiles s'). (k, f) \<in> set (processedFiles (store sys)) \<or>
       (k = run_fileId (runs sys ! n) \<and> pf_status f \<in> {''pending'', ''processing'', ''failed''} \<and>
        (pf_status f = ''failed'' \<longrightarrow> has_start_activity s' k))"
    and sp: "\<forall>(i, p, t) \<in> set (spawned sys'). (i, p, t) \<in> set (spawned sys) \<or> has_start_activity s' i"
  shows "system_invariant sys'"
proof -
  let ?P = "\<lambda>j x. j < currentId (store sys) \<and> stage_ok (store sys) j x"
  let ?P' = "\<lambda>j x. j < currentId s' \<and> stage_ok s' j x"
  have d: "distinct (map run_fileId (runs sys))" using inv by (simp add: system_invariant_def)
  have old: "\<forall>r \<in> set (runs sys). ?P (run_fileId r) (run_stage r)"
    using inv by (simp add: system_invariant_def)
  have "?P (run_fileId (runs sys ! n)) (run_stage (runs sys ! n))"
    using old n by simp
  then have new': "?P' (run_fileId (runs sys ! n)) st"
    using new cur by simp
  have fr: "?P' j x" if "j \<noteq> run_fileId (runs sys ! n)" "?P j x" for j x
  proof
    show "j < currentId s'" using that(2) cur by simp
    show "stage_ok s' j x"
      by (rule stage_ok_mono[of "store sys"]) (use that frame act in auto)
  qed
  have 3: "\<forall>r \<in> set (runs sys'). ?P' (run_fileId r) (run_stage r)"
    unfolding sys' by (rule runs_stage_update[OF d n old new' fr])
  have 2: "distinct (map run_fileId (runs sys'))"
    unfolding sys' using d n by (simp add: map_fileId_stage_update)
  have 4: "\<forall>(k, f) \<in> set (processedFiles s').
        pf_status f \<in> {''pending'', ''processing'', ''failed''} \<and>
        (pf_status f = ''failed'' \<longrightarrow> has_start_activity s' k)"
  proof (clarify)
    fix k f assume kf: "(k, f) \<in> set (processedFiles s')"
    from inv have o: "\<forall>(k, f) \<in> set (processedFiles (store sys)).
        pf_status f \<in> {''pending'', ''processing'', ''failed''} \<and>
        (pf_status f = ''failed'' \<longrightarrow> has_start_activity (store sys) k)"
      by (simp add: system_invariant_def)
    from files kf consider "(k, f) \<in> set (processedFiles (store sys))"
      | "pf_status f \<in> {''pending'', ''processing'', ''failed''} \<and>
        (pf_status f = ''failed'' \<longrightarrow> has_start_activity s' k)" by blast
    then show "pf_status f \<in> {''pending'', ''processing'', ''failed''} \<and>
        (pf_status f = ''failed'' \<longrightarrow> has_start_activity s' k)"
    proof cases
      case 1
      with o act show ?thesis by blast
    next
      case 2
      then show ?thesis .
    qed
  qed
  have 5: "\<forall>(i, p, t) \<in> set (spawned sys'). has_start_activity s' i"
  proof (clarify)
    fix i p t assume a: "(i, p, t) \<in> set (spawned sys')"
    from inv have "\<forall>(i, p, t) \<in> set (spawned sys). has_start_activity (store sys) i"
      by (simp add: system_invariant_def)
    with sp a act show "has_start_activity s' i" by blast
  qed
  show ?thesis
    unfolding system_invariant_def sys'(1) using ids 2 3 4 5 by (intro conjI) assumption+
qed

text \<open>What the invariant says about one document.\<close>

lemma inv_run:
  assumes "system_invariant sys" "n < length (runs sys)"
  shows "stage_ok (store sys) (run_fileId (runs sys ! n)) (run_stage (runs sys ! n))"
    "run_fileId (runs sys ! n) < currentId (store sys)"
  using assms by (simp_all add: system_invariant_def)

lemma inv_ids: "system_invariant sys \<Longrightarrow> ids_below_counter (store sys)"
  by (simp add: system_invariant_def)

text \<open>Setting the status of the file of document \<open>n\<close>.\<close>

lemma inv_set_status:
  assumes inv: "system_invariant sys" and n: "n < length (runs sys)"
    and u: "updateProcessedFile (store sys) (run_fileId (runs sys ! n)) u = (s', res)"
      "pfu_status u = Some x"
    and x: "x \<in> {''pending'', ''processing'', ''failed''}"
      "x = ''failed'' \<Longrightarrow> has_start_activity (store sys) (run_fileId (runs sys ! n))"
    and ex: "file_status (store sys) (run_fileId (runs sys ! n)) \<noteq> None"
    and new: "file_status s' (run_fileId (runs sys ! n)) = Some x \<Longrightarrow>
       stage_ok s' (run_fileId (runs sys ! n)) st"
    and sys': "store sys' = s'" "runs sys' = (runs sys)[n := (runs sys ! n)\<lparr>run_stage := st\<rparr>]"
      "spawned sys' = spawned sys"
  shows "system_invariant sys'"
proof (rule inv_stage_change[OF inv n sys'(1,2)])
  note e = set_status_effect[OF u]
  show "ids_below_counter s'"
    using inv_ids[OF inv] unfolding ids_below_counter_def e(1) e(2) e(3) .
  show "currentId (store sys) \<le> currentId s'" using e(2) by simp
  show "stage_ok s' (run_fileId (runs sys ! n)) st"
    using new e(4)[of "run_fileId (runs sys ! n)"] ex by simp
  show "\<And>j. j \<noteq> run_fileId (runs sys ! n) \<Longrightarrow> file_status s' j = file_status (store sys) j"
    using e(4) by simp
  show act: "\<And>j. has_start_activity (store sys) j \<Longrightarrow> has_start_activity s' j"
    using e(1) by (simp add: has_start_activity_def)
  show "\<forall>(k, f) \<in> set (processedFiles s'). (k, f) \<in> set (processedFiles (store sys)) \<or>
       (k = run_fileId (runs sys ! n) \<and> pf_status f \<in> {''pending'', ''processing'', ''failed''} \<and>
        (pf_status f = ''failed'' \<longrightarrow> has_start_activity s' k))"
  proof -
    have "(k, f) \<in> set (processedFiles (store sys)) \<or>
       (k = run_fileId (runs sys ! n) \<and> pf_status f \<in> {''pending'', ''processing'', ''failed''} \<and>
        (pf_status f = ''failed'' \<longrightarrow> has_start_activity s' k))"
      if kf: "(k, f) \<in> set (processedFiles s')" for k f
    proof (cases "(k, f) \<in> set (processedFiles (store sys))")
      case True
      then show ?thesis by simp
    next
      case False
      with e(5) kf have "k = run_fileId (runs sys ! n)" "pf_status f = x" by auto
      with x act show ?thesis by simp
    qed
    then show ?thesis by blast
  qed
  show "\<forall>(i, p, t) \<in> set (spawned sys'). (i, p, t) \<in> set (spawned sys) \<or> has_start_activity s' i"
    using sys'(3) by auto
qed


lemma file_status_exists:
  "stage_ok s i st \<Longrightarrow> st \<noteq> Done \<Longrightarrow> file_status s i \<noteq> None"
  by (cases st) auto

lemma inv_fail:
  assumes inv: "system_invariant sys" and n: "n < length (runs sys)"
    and st: "run_stage (runs sys ! n) = AwaitActivity \<or> run_stage (runs sys ! n) = ChildRunning"
    and u: "updateProcessedFile (store sys) (run_fileId (runs sys ! n))
              (no_file_updates\<lparr> pfu_status := Some ''failed'' \<rparr>) = (s', res)"
    and sys': "store sys' = s'" "runs sys' = (runs sys)[n := (runs sys ! n)\<lparr>run_stage := Done\<rparr>]"
      "spawned sys' = spawned sys"
  shows "system_invariant sys'"
proof (rule inv_set_status[OF inv n u _ _ _ _ _ sys'])
  note r = inv_run(1)[OF inv n]
  show "pfu_status (no_file_updates\<lparr>pfu_status := Some ''failed''\<rparr>) = Some ''failed''" by simp
  show "''failed'' \<in> {''pending'', ''processing'', ''failed''}" by simp
  show h: "has_start_activity (store sys) (run_fileId (runs sys ! n))"
    using r st by auto
  show "file_status (store sys) (run_fileId (runs sys ! n)) \<noteq> None"
    using r st by auto
  show "stage_ok s' (run_fileId (runs sys ! n)) Done"
    using h set_status_effect(1)[OF u] by (simp add: has_start_activity_def)
qed

lemma catch_block_eq:
  "updateProcessedFile (store sys) (run_fileId (runs sys ! n))
      (no_file_updates\<lparr> pfu_status := Some ''failed'' \<rparr>) = (s', res) \<Longrightarrow>
   catch_block sys n = sys\<lparr> store := s', runs := (runs sys)[n := (runs sys ! n)\<lparr>run_stage := Done\<rparr>] \<rparr>"
  by (simp add: catch_block_def Let_def)

lemma inv_catch_block:
  assumes inv: "system_invariant sys" and n: "n < length (runs sys)"
    and st: "run_stage (runs sys ! n) = AwaitActivity"
  shows "system_invariant (catch_block sys n)"
proof -
  obtain s' res where u: "updateProcessedFile (store sys) (run_fileId (runs sys ! n))
      (no_file_updates\<lparr> pfu_status := Some ''failed'' \<rparr>) = (s', res)"
    by (cases "updateProcessedFile (store sys) (run_fileId (runs sys ! n))
      (no_file_updates\<lparr> pfu_status := Some ''failed'' \<rparr>)")
  show ?thesis
    by (rule inv_fail[OF inv n _ u]) (simp_all add: st catch_block_eq[OF u])
qed

lemma inv_on_close:
  assumes inv: "system_invariant sys" and n: "n < length (runs sys)"
  shows "system_invariant (on_close sys n code)"
proof (cases "run_stage (runs sys ! n) = ChildRunning")
  case False
  then show ?thesis using inv by (simp add: on_close_def Let_def)
next
  case True
  note r = inv_run(1)[OF inv n]
  show ?thesis
  proof (cases "code = Some 0")
    case c: True
    have "system_invariant (sys\<lparr> runs := (runs sys)[n := (runs sys ! n)\<lparr>run_stage := Done\<rparr>] \<rparr>)"
    proof (rule inv_stage_change[OF inv n, where s' = "store sys" and st = Done])
      show "stage_ok (store sys) (run_fileId (runs sys ! n)) Done" using r True by simp
      show "ids_below_counter (store sys)" by (rule inv_ids[OF inv])
    qed auto
    then show ?thesis using True c by (simp add: on_close_def Let_def)
  next
    case c: False
    obtain s' res where u: "updateProcessedFile (store sys) (run_fileId (runs sys ! n))
        (no_file_updates\<lparr> pfu_status := Some ''failed'' \<rparr>) = (s', res)"
      by (cases "updateProcessedFile (store sys) (run_fileId (runs sys ! n))
        (no_file_updates\<lparr> pfu_status := Some ''failed'' \<rparr>)")
    have "system_invariant (sys\<lparr> store := s', runs := (runs sys)[n := (runs sys ! n)\<lparr>run_stage := Done\<rparr>] \<rparr>)"
      by (rule inv_fail[OF inv n _ u]) (simp_all add: True)
    then show ?thesis using True c u by (simp add: on_close_def Let_def)
  qed
qed

lemma inv_create_activity:
  assumes inv: "system_invariant sys" and n: "n < length (runs sys)"
    and st: "run_stage (runs sys ! n) = AwaitUpdate"
    and c: "createAgentActivity (store sys) now (start_activity (runs sys ! n)) = (s', a)"
  shows "system_invariant (sys\<lparr> store := s',
           runs := (runs sys)[n := (runs sys ! n)\<lparr>run_stage := AwaitActivity\<rparr>] \<rparr>)"
proof (rule inv_stage_change[OF inv n, where s' = s' and st = AwaitActivity])
  have below: "\<forall>k \<in> fst ` set (agentActivities (store sys)). k < currentId (store sys)"
    using inv_ids[OF inv] by (simp add: ids_below_counter_def)
  note e = createAgentActivity_effect[OF c below]
  note r = inv_run(1)[OF inv n]
  show "ids_below_counter s'"
    using inv_ids[OF inv] unfolding ids_below_counter_def e(1) e(2) e(3) by fastforce
  show "currentId (store sys) \<le> currentId s'" using e(2) by simp
  have fs: "file_status s' j = file_status (store sys) j" for j
    using e(1) by (simp add: file_status_def getProcessedFile_def)
  have "a \<in> set (Map_values (agentActivities s'))"
    unfolding e(3) by (simp add: Map_values_def)
  then have "has_start_activity s' (run_fileId (runs sys ! n))"
    unfolding has_start_activity_def using e(4,5,6)
    by (intro bexI[of _ a]) (simp_all add: start_activity_def)
  then show "stage_ok s' (run_fileId (runs sys ! n)) AwaitActivity"
    using r st fs by simp
  show "\<And>j. j \<noteq> run_fileId (runs sys ! n) \<Longrightarrow> file_status s' j = file_status (store sys) j"
    using fs by simp
  show "\<And>j. has_start_activity (store sys) j \<Longrightarrow> has_start_activity s' j"
    by (rule has_start_activity_mono) (simp_all add: e(3))
  show "\<forall>(k, f) \<in> set (processedFiles s'). (k, f) \<in> set (processedFiles (store sys)) \<or>
       (k = run_fileId (runs sys ! n) \<and> pf_status f \<in> {''pending'', ''processing'', ''failed''} \<and>
        (pf_status f = ''failed'' \<longrightarrow> has_start_activity s' k))"
    unfolding e(1) by blast
qed auto

lemma inv_resume:
  assumes inv: "system_invariant sys" and n: "n < length (runs sys)"
  shows "system_invariant (resume sys n now spawnThrows)"
proof (cases "run_stage (runs sys ! n)")
  case AwaitCreate
  then show ?thesis using inv by (simp add: resume_def Let_def)
next
  case AwaitUpdate
  obtain s' a where c: "createAgentActivity (store sys) now (start_activity (runs sys ! n)) = (s', a)"
    by (cases "createAgentActivity (store sys) now (start_activity (runs sys ! n))")
  from inv_create_activity[OF inv n AwaitUpdate c] show ?thesis
    by (simp add: resume_def Let_def AwaitUpdate c)
next
  case AwaitUpdateRejected
  with inv_run(1)[OF inv n] show ?thesis by simp
next
  case AwaitActivity
  show ?thesis
  proof (cases spawnThrows)
    case True
    with inv_catch_block[OF inv n AwaitActivity] show ?thesis
      by (simp add: resume_def Let_def AwaitActivity)
  next
    case False
    note r = inv_run(1)[OF inv n]
    have "system_invariant (sys\<lparr> spawned := spawned sys @
              [(run_fileId (runs sys ! n), run_filePath (runs sys ! n), run_fileType (runs sys ! n))],
            runs := (runs sys)[n := (runs sys ! n)\<lparr>run_stage := ChildRunning\<rparr>] \<rparr>)"
    proof (rule inv_stage_change[OF inv n, where s' = "store sys" and st = ChildRunning])
      show "stage_ok (store sys) (run_fileId (runs sys ! n)) ChildRunning"
        using r AwaitActivity by simp
      show "ids_below_counter (store sys)" by (rule inv_ids[OF inv])
      show "\<forall>(i, p, t)\<in>set (spawned (sys\<lparr> spawned := spawned sys @
              [(run_fileId (runs sys ! n), run_filePath (runs sys ! n), run_fileType (runs sys ! n))],
            runs := (runs sys)[n := (runs sys ! n)\<lparr>run_stage := ChildRunning\<rparr>] \<rparr>)).
          (i, p, t) \<in> set (spawned sys) \<or> has_start_activity (store sys) i"
        using r AwaitActivity by auto
    qed auto
    then show ?thesis using False by (simp add: resume_def Let_def AwaitActivity)
  qed
next
  case ChildRunning
  then show ?thesis using inv by (simp add: resume_def Let_def)
next
  case Done
  then show ?thesis using inv by (simp add: resume_def Let_def)
qed


lemma processFileWithAI_call_eq:
  assumes "updateProcessedFile s i
      (no_file_updates\<lparr> pfu_status := Some ''processing'', pfu_processedAt := Some (Some now) \<rparr>)
        = (s', res)"
  shows "processFileWithAI_call s now i = (s', if isl res then AwaitUpdateRejected else AwaitUpdate)"
  using assms by (cases res) (simp_all add: processFileWithAI_call_def)

lemma upload_continue_inv:
  assumes inv: "system_invariant sys" and n: "n < length (runs sys)"
    and st: "run_stage (runs sys ! n) = AwaitCreate"
  shows "system_invariant (fst (upload_continue sys n now))"
    and "run_stage (runs (fst (upload_continue sys n now)) ! n) = AwaitUpdate"
    and "file_status (store (fst (upload_continue sys n now))) j =
          (if j = run_fileId (runs sys ! n) then Some ''processing''
           else file_status (store sys) j)"
    and "agentActivities (store (fst (upload_continue sys n now))) = agentActivities (store sys)"
proof -
  let ?i = "run_fileId (runs sys ! n)"
  let ?u = "no_file_updates\<lparr> pfu_status := Some ''processing'', pfu_processedAt := Some (Some now) \<rparr>"
  obtain s' res where u: "updateProcessedFile (store sys) ?i ?u = (s', res)"
    by (cases "updateProcessedFile (store sys) ?i ?u")
  have us: "pfu_status ?u = Some ''processing''" by simp
  note e = set_status_effect[OF u us]
  have p: "file_status (store sys) ?i = Some ''pending''"
    using inv_run(1)[OF inv n] st by simp
  then have "\<not> isl res" using e(6) by simp
  then have call: "processFileWithAI_call (store sys) now ?i = (s', AwaitUpdate)"
    using processFileWithAI_call_eq[OF u] by simp
  then have eq: "fst (upload_continue sys n now) =
      sys\<lparr> store := s', runs := (runs sys)[n := (runs sys ! n)\<lparr>run_stage := AwaitUpdate\<rparr>] \<rparr>"
    by (simp add: upload_continue_def Let_def)
  show "system_invariant (fst (upload_continue sys n now))"
    unfolding eq
    by (rule inv_set_status[OF inv n u us, where st = AwaitUpdate]) (use p in simp_all)
  show "run_stage (runs (fst (upload_continue sys n now)) ! n) = AwaitUpdate"
    unfolding eq using n by simp
  show "file_status (store (fst (upload_continue sys n now))) j =
          (if j = ?i then Some ''processing'' else file_status (store sys) j)"
    unfolding eq using e(4)[of j] p by simp
  show "agentActivities (store (fst (upload_continue sys n now))) = agentActivities (store sys)"
    unfolding eq using e(1) by simp
qed

lemma upload_begin_cases:
  obtains (no_file) "req_file = None" "upload_begin sys now req_file = (sys, Some (400, BodyError ''No file uploaded''))"
  | (unsupported) upl where "req_file = Some upl"
      "fileType_of_extension (toLowerCase (extname (mf_originalname upl))) = None"
      "upload_begin sys now req_file = (sys, Some (400, BodyError unsupported_message))"
  | (accepted) upl fileType s1 processedFile where "req_file = Some upl"
      "fileType_of_extension (toLowerCase (extname (mf_originalname upl))) = Some fileType"
      "createProcessedFile (store sys) now (upload_insert upl fileType) = (s1, processedFile)"
      "upload_begin sys now req_file =
         (sys\<lparr> store := s1, runs := runs sys @
             [\<lparr> run_fileId = pf_id processedFile, run_filePath = mf_path upl,
                run_fileType = fileType, run_stage = AwaitCreate \<rparr>] \<rparr>, None)"
proof (cases req_file)
  case None
  show ?thesis by (rule no_file) (simp_all add: None upload_begin_def)
next
  case (Some upl)
  show ?thesis
  proof (cases "fileType_of_extension (toLowerCase (extname (mf_originalname upl)))")
    case None
    show ?thesis by (rule unsupported[OF Some None]) (simp add: Some None upload_begin_def)
  next
    case ft: (Some fileType)
    obtain s1 processedFile where
      c: "createProcessedFile (store sys) now (upload_insert upl fileType) = (s1, processedFile)"
      by (cases "createProcessedFile (store sys) now (upload_insert upl fileType)")
    show ?thesis by (rule accepted[OF Some ft c]) (simp add: Some ft c upload_begin_def)
  qed
qed

lemma upload_begin_inv:
  assumes inv: "system_invariant sys"
  shows "system_invariant (fst (upload_begin sys now req_file))"
proof (cases rule: upload_begin_cases[where sys = sys and now = now and req_file = req_file])
  case no_file
  then show ?thesis using inv by simp
next
  case (unsupported upl)
  then show ?thesis using inv by simp
next
  case (accepted upl fileType s1 processedFile)
  note e = createProcessedFile_effect[OF accepted(3)]
  let ?s = "store sys"
  let ?c = "currentId ?s"
  have ids: "ids_below_counter ?s" by (rule inv_ids[OF inv])
  have old: "\<forall>r \<in> set (runs sys). run_fileId r < ?c \<and> stage_ok ?s (run_fileId r) (run_stage r)"
    using inv by (simp add: system_invariant_def)
  have act: "has_start_activity s1 j = has_start_activity ?s j" for j
    using e(1) by (simp add: has_start_activity_def)
  have 1: "ids_below_counter s1"
    using ids unfolding ids_below_counter_def e(1) e(2) e(5) by fastforce
  have "?c \<notin> run_fileId ` set (runs sys)" using old by fastforce
  then have 2: "distinct (map run_fileId (runs sys @
             [\<lparr> run_fileId = pf_id processedFile, run_filePath = mf_path upl,
                run_fileType = fileType, run_stage = AwaitCreate \<rparr>]))"
    using inv e(3) by (simp add: system_invariant_def)
  have 3: "run_fileId r < currentId s1 \<and> stage_ok s1 (run_fileId r) (run_stage r)"
    if "r \<in> set (runs sys)" for r
  proof
    from old that have o: "run_fileId r < ?c" "stage_ok ?s (run_fileId r) (run_stage r)" by auto
    show "run_fileId r < currentId s1" using o(1) e(2) by simp
    show "stage_ok s1 (run_fileId r) (run_stage r)"
      by (rule stage_ok_mono[OF o(2)]) (use o(1) e(6)[of "run_fileId r"] act in auto)
  qed
  have newrun: "stage_ok s1 ?c AwaitCreate"
    using e(6)[of ?c] by (simp add: upload_insert_def)
  have 4: "pf_status f \<in> {''pending'', ''processing'', ''failed''} \<and>
        (pf_status f = ''failed'' \<longrightarrow> has_start_activity s1 k)"
    if "(k, f) \<in> set (processedFiles s1)" for k f
  proof (cases "(k, f) \<in> set (processedFiles ?s)")
    case True
    with inv have "pf_status f \<in> {''pending'', ''processing'', ''failed''} \<and>
        (pf_status f = ''failed'' \<longrightarrow> has_start_activity ?s k)"
      by (auto simp: system_invariant_def)
    then show ?thesis using act by simp
  next
    case False
    with that e(7) have "f = processedFile" by auto
    then show ?thesis using e(4) by (simp add: upload_insert_def)
  qed
  have 5: "\<forall>(i, p, t) \<in> set (spawned sys). has_start_activity s1 i"
    using inv act by (simp add: system_invariant_def)
  show ?thesis
    unfolding accepted(4) fst_conv system_invariant_def
    using 1 2 3 newrun 4 5 e(2) e(3) by auto
qed

lemma step_inv: "system_invariant sys \<Longrightarrow> system_invariant (step sys ev)"
  by (cases ev) (simp_all add: upload_begin_inv upload_continue_inv(1) inv_resume inv_on_close)

lemma initial_inv: "system_invariant initial_system"
  by (simp add: system_invariant_def initial_system_def MemStorage_def ids_below_counter_def)

lemma run_events_inv: "system_invariant sys \<Longrightarrow> system_invariant (run_events sys evs)"
  unfolding run_events_def by (induction evs arbitrary: sys) (simp_all add: step_inv)

lemma reachable_inv: "system_invariant (run_events initial_system evs)"
  by (rule run_events_inv[OF initial_inv])

section \<open>The server: what a step changes\<close>

lemma upload_begin_spawned: "spawned (fst (upload_begin sys now req_file)) = spawned sys"
  by (cases rule: upload_begin_cases[where sys = sys and now = now and req_file = req_file])
    simp_all

lemma upload_continue_frame:
  "snd (upload_continue sys n now) =
     (200, BodySuccess True (run_fileId (runs sys ! n)) success_message)"
  "spawned (fst (upload_continue sys n now)) = spawned sys"
  "agentActivities (store (fst (upload_continue sys n now))) = agentActivities (store sys)"
  "triggeredActions (store (fst (upload_continue sys n now))) = triggeredActions (store sys)"
  "n < length (runs sys) \<Longrightarrow>
     run_stage (runs (fst (upload_continue sys n now)) ! n) \<in> {AwaitUpdate, AwaitUpdateRejected}"
proof -
  let ?i = "run_fileId (runs sys ! n)"
  let ?u = "no_file_updates\<lparr> pfu_status := Some ''processing'', pfu_processedAt := Some (Some now) \<rparr>"
  obtain s' res where u: "updateProcessedFile (store sys) ?i ?u = (s', res)"
    by (cases "updateProcessedFile (store sys) ?i ?u")
  note c = processFileWithAI_call_eq[OF u]
  note f = updateProcessedFile_frame[OF u]
  show "snd (upload_continue sys n now) = (200, BodySuccess True ?i success_message)"
    "spawned (fst (upload_continue sys n now)) = spawned sys"
    by (simp_all add: upload_continue_def Let_def c)
  show "agentActivities (store (fst (upload_continue sys n now))) = agentActivities (store sys)"
    "triggeredActions (store (fst (upload_continue sys n now))) = triggeredActions (store sys)"
    using f by (simp_all add: upload_continue_def Let_def c)
  show "run_stage (runs (fst (upload_continue sys n now)) ! n) \<in> {AwaitUpdate, AwaitUpdateRejected}"
    if "n < length (runs sys)"
    using that by (simp add: upload_continue_def Let_def c)
qed

text \<open>The two places where the status is set to failed.\<close>

lemma fail_step:
  assumes inv: "system_invariant sys" and n: "n < length (runs sys)"
    and st: "run_stage (runs sys ! n) = AwaitActivity \<or> run_stage (runs sys ! n) = ChildRunning"
    and u: "updateProcessedFile (store sys) (run_fileId (runs sys ! n))
              (no_file_updates\<lparr> pfu_status := Some ''failed'' \<rparr>) = (s', res)"
  shows "file_status s' j =
           (if j = run_fileId (runs sys ! n) then Some ''failed'' else file_status (store sys) j)"
    and "agentActivities s' = agentActivities (store sys)"
    and "file_status (store sys) (run_fileId (runs sys ! n)) = Some ''processing''"
proof -
  have us: "pfu_status (no_file_updates\<lparr> pfu_status := Some ''failed'' \<rparr>) = Some ''failed''"
    by simp
  note e = set_status_effect[OF u us]
  show p: "file_status (store sys) (run_fileId (runs sys ! n)) = Some ''processing''"
    using inv_run(1)[OF inv n] st by auto
  show "file_status s' j =
           (if j = run_fileId (runs sys ! n) then Some ''failed'' else file_status (store sys) j)"
    using e(4)[of j] p by simp
  show "agentActivities s' = agentActivities (store sys)" by (rule e(1))
qed

lemma on_close_fail:
  assumes inv: "system_invariant sys" and n: "n < length (runs sys)"
    and st: "run_stage (runs sys ! n) = ChildRunning" and code: "code \<noteq> Some 0"
  shows "file_status (store (on_close sys n code)) j =
           (if j = run_fileId (runs sys ! n) then Some ''failed'' else file_status (store sys) j)"
    and "agentActivities (store (on_close sys n code)) = agentActivities (store sys)"
    and "spawned (on_close sys n code) = spawned sys"
proof -
  obtain s' res where u: "updateProcessedFile (store sys) (run_fileId (runs sys ! n))
        (no_file_updates\<lparr> pfu_status := Some ''failed'' \<rparr>) = (s', res)"
    by (cases "updateProcessedFile (store sys) (run_fileId (runs sys ! n))
        (no_file_updates\<lparr> pfu_status := Some ''failed'' \<rparr>)")
  have eq: "on_close sys n code =
      sys\<lparr> store := s', runs := (runs sys)[n := (runs sys ! n)\<lparr>run_stage := Done\<rparr>] \<rparr>"
    using st code u by (simp add: on_close_def Let_def)
  note f = fail_step[OF inv n _ u]
  show "file_status (store (on_close sys n code)) j =
           (if j = run_fileId (runs sys ! n) then Some ''failed'' else file_status (store sys) j)"
    unfolding eq using f(1)[of j] st by simp
  show "agentActivities (store (on_close sys n code)) = agentActivities (store sys)"
    unfolding eq using f(2) st by simp
  show "spawned (on_close sys n code) = spawned sys" unfolding eq by simp
qed

lemma catch_block_fail:
  assumes inv: "system_invariant sys" and n: "n < length (runs sys)"
    and st: "run_stage (runs sys ! n) = AwaitActivity"
  shows "file_status (store (catch_block sys n)) j =
           (if j = run_fileId (runs sys ! n) then Some ''failed'' else file_status (store sys) j)"
    and "agentActivities (store (catch_block sys n)) = agentActivities (store sys)"
    and "spawned (catch_block sys n) = spawned sys"
proof -
  obtain s' res where u: "updateProcessedFile (store sys) (run_fileId (runs sys ! n))
        (no_file_updates\<lparr> pfu_status := Some ''failed'' \<rparr>) = (s', res)"
    by (cases "updateProcessedFile (store sys) (run_fileId (runs sys ! n))
        (no_file_updates\<lparr> pfu_status := Some ''failed'' \<rparr>)")
  note eq = catch_block_eq[OF u]
  note f = fail_step[OF inv n _ u]
  show "file_status (store (catch_block sys n)) j =
           (if j = run_fileId (runs sys ! n) then Some ''failed'' else file_status (store sys) j)"
    unfolding eq using f(1)[of j] st by simp
  show "agentActivities (store (catch_block sys n)) = agentActivities (store sys)"
    unfolding eq using f(2) st by simp
  show "spawned (catch_block sys n) = spawned sys" unfolding eq by simp
qed

lemma upload_begin_status:
  assumes inv: "system_invariant sys"
  shows "status_move (file_status (store sys) j)
           (file_status (store (fst (upload_begin sys now req_file))) j)"
    and "snd (upload_begin sys now req_file) = None \<Longrightarrow>
         file_status (store sys) (currentId (store sys)) = None \<and>
         file_status (store (fst (upload_begin sys now req_file))) (currentId (store sys))
           = Some ''pending''"
proof -
  have "currentId (store sys) \<notin> fst ` set (processedFiles (store sys))"
    using inv_ids[OF inv] by (auto simp: ids_below_counter_def)
  then have none: "file_status (store sys) (currentId (store sys)) = None"
    by (simp add: file_status_def getProcessedFile_def Map_get_None_iff)
  show "status_move (file_status (store sys) j)
           (file_status (store (fst (upload_begin sys now req_file))) j)"
  proof (cases rule: upload_begin_cases[where sys = sys and now = now and req_file = req_file])
    case (accepted upl fileType s1 processedFile)
    from createProcessedFile_effect(6)[OF accepted(3), of j] none show ?thesis
      unfolding accepted(4) by (simp add: status_move_def upload_insert_def)
  qed (simp_all add: status_move_def)
  show "file_status (store sys) (currentId (store sys)) = None \<and>
         file_status (store (fst (upload_begin sys now req_file))) (currentId (store sys))
           = Some ''pending''"
    if "snd (upload_begin sys now req_file) = None"
  proof (cases rule: upload_begin_cases[where sys = sys and now = now and req_file = req_file])
    case (accepted upl fileType s1 processedFile)
    from createProcessedFile_effect(6)[OF accepted(3), of "currentId (store sys)"] none
    show ?thesis unfolding accepted(4) by (simp add: upload_insert_def)
  qed (use that in simp_all)
qed

lemma resume_status:
  assumes inv: "system_invariant sys" and n: "n < length (runs sys)"
  shows "status_move (file_status (store sys) j)
           (file_status (store (resume sys n now spawnThrows)) j)"
proof (cases "run_stage (runs sys ! n)")
  case AwaitUpdate
  obtain s' a where c: "createAgentActivity (store sys) now (start_activity (runs sys ! n)) = (s', a)"
    by (cases "createAgentActivity (store sys) now (start_activity (runs sys ! n))")
  have "\<forall>k \<in> fst ` set (agentActivities (store sys)). k < currentId (store sys)"
    using inv_ids[OF inv] by (simp add: ids_below_counter_def)
  from createAgentActivity_effect(1)[OF c this] show ?thesis
    by (simp add: resume_def Let_def AwaitUpdate c status_move_def file_status_def
        getProcessedFile_def)
next
  case AwaitUpdateRejected
  with inv_run(1)[OF inv n] show ?thesis by simp
next
  case AwaitActivity
  show ?thesis
  proof (cases spawnThrows)
    case True
    from catch_block_fail(1)[OF inv n AwaitActivity, of j] fail_step(3)[OF inv n]
    show ?thesis
      using AwaitActivity True
      by (cases "updateProcessedFile (store sys) (run_fileId (runs sys ! n))
        (no_file_updates\<lparr> pfu_status := Some ''failed'' \<rparr>)")
        (auto simp: resume_def Let_def status_move_def)
  next
    case False
    then show ?thesis by (simp add: resume_def Let_def AwaitActivity status_move_def)
  qed
qed (simp_all add: resume_def Let_def status_move_def)

lemma on_close_status:
  assumes inv: "system_invariant sys" and n: "n < length (runs sys)"
  shows "status_move (file_status (store sys) j) (file_status (store (on_close sys n code)) j)"
proof (cases "run_stage (runs sys ! n) = ChildRunning \<and> code \<noteq> Some 0")
  case True
  then have st: "run_stage (runs sys ! n) = ChildRunning" and c: "code \<noteq> Some 0" by simp_all
  obtain s' res where u: "updateProcessedFile (store sys) (run_fileId (runs sys ! n))
        (no_file_updates\<lparr> pfu_status := Some ''failed'' \<rparr>) = (s', res)"
    by (cases "updateProcessedFile (store sys) (run_fileId (runs sys ! n))
        (no_file_updates\<lparr> pfu_status := Some ''failed'' \<rparr>)")
  from on_close_fail(1)[OF inv n st c, of j] fail_step(3)[OF inv n _ u] st
  show ?thesis by (auto simp: status_move_def)
next
  case False
  then show ?thesis by (auto simp: on_close_def Let_def status_move_def)
qed

lemma step_status:
  assumes inv: "system_invariant sys"
  shows "status_move (file_status (store sys) j) (file_status (store (step sys ev)) j)"
proof (cases ev)
  case (EvUpload now req_file)
  then show ?thesis using upload_begin_status(1)[OF inv] by simp
next
  case (EvResume n now spawnThrows)
  show ?thesis
  proof (cases "n < length (runs sys)")
    case False
    then show ?thesis by (simp add: EvResume status_move_def)
  next
    case n: True
    show ?thesis
    proof (cases "run_stage (runs sys ! n) = AwaitCreate")
      case True
      from upload_continue_inv(3)[OF inv n True, of now j] inv_run(1)[OF inv n] True
      show ?thesis by (auto simp: EvResume n status_move_def)
    next
      case False
      then show ?thesis using resume_status[OF inv n] by (simp add: EvResume n)
    qed
  qed
next
  case (EvClose n code)
  then show ?thesis using on_close_status[OF inv] by (simp add: status_move_def)
qed

text \<open>A step spawns at most one child, for a document suspended at its second await.\<close>

lemma step_spawned:
  assumes inv: "system_invariant sys" and x: "x \<in> set (spawned (step sys ev))"
  shows "x \<in> set (spawned sys) \<or>
         (file_status (store sys) (fst x) = Some ''processing'' \<and>
          has_start_activity (store sys) (fst x))"
proof (cases ev)
  case (EvUpload now req_file)
  with x show ?thesis by (simp add: upload_begin_spawned)
next
  case (EvResume n now spawnThrows)
  show ?thesis
  proof (cases "n < length (runs sys)")
    case False
    with x show ?thesis by (simp add: EvResume)
  next
    case n: True
    note r = inv_run(1)[OF inv n]
    show ?thesis
    proof (cases "run_stage (runs sys ! n)")
      case AwaitCreate
      with x show ?thesis by (simp add: EvResume n upload_continue_frame(2))
    next
      case AwaitUpdate
      with x show ?thesis
        by (simp add: EvResume n resume_def Let_def split: prod.splits)
    next
      case AwaitUpdateRejected
      with r show ?thesis by simp
    next
      case AwaitActivity
      show ?thesis
      proof (cases spawnThrows)
        case True
        with x catch_block_fail(3)[OF inv n AwaitActivity] show ?thesis
          by (simp add: EvResume n resume_def Let_def AwaitActivity)
      next
        case False
        with x r AwaitActivity show ?thesis
          by (auto simp: EvResume n resume_def Let_def)
      qed
    next
      case ChildRunning
      with x show ?thesis by (simp add: EvResume n resume_def Let_def)
    next
      case Done
      with x show ?thesis by (simp add: EvResume n resume_def Let_def)
    qed
  qed
next
  case (EvClose n code)
  with x show ?thesis
    by (auto simp: on_close_def Let_def split: if_splits prod.splits)
qed

section \<open>The upload handler: extension and format\<close>

lemma fileType_of_extension_None:
  "fileType_of_extension e = None \<longleftrightarrow> e \<notin> accepted_extensions"
  by (simp add: fileType_of_extension_def accepted_extensions_def)

lemma fileType_of_extension_Some:
  "fileType_of_extension e = Some t \<longleftrightarrow>
     (e = ''.pdf'' \<and> t = ''PDF'') \<or> ((e = ''.eml'' \<or> e = ''.msg'') \<and> t = ''Email'') \<or>
     (e = ''.json'' \<and> t = ''JSON'')"
  by (auto simp: fileType_of_extension_def)

lemma upload_begin_created:
  assumes "fileType_of_extension (toLowerCase (extname (mf_originalname upl))) = Some t"
  shows "snd (upload_begin sys now (Some upl)) = None"
    and "\<exists>r. getProcessedFile (store (fst (upload_begin sys now (Some upl)))) (currentId (store sys))
           = Some r \<and> pf_fileType r = t \<and> pf_originalName r = mf_originalname upl \<and>
             pf_id r = currentId (store sys) \<and> pf_status r = ''pending''"
proof -
  obtain s1 r where c: "createProcessedFile (store sys) now (upload_insert upl t) = (s1, r)"
    by (cases "createProcessedFile (store sys) now (upload_insert upl t)")
  from createProcessedFile_roundtrip[OF c]
  have "getProcessedFile s1 (currentId (store sys)) = Some r" "pf_fileType r = t"
    "pf_originalName r = mf_originalname upl" "pf_id r = currentId (store sys)"
    "pf_status r = ''pending''"
    by (auto simp: insert_fields_copied_def upload_insert_def)
  then show "\<exists>r. getProcessedFile (store (fst (upload_begin sys now (Some upl)))) (currentId (store sys))
           = Some r \<and> pf_fileType r = t \<and> pf_originalName r = mf_originalname upl \<and>
             pf_id r = currentId (store sys) \<and> pf_status r = ''pending''"
    using assms c by (simp add: upload_begin_def)
  show "snd (upload_begin sys now (Some upl)) = None"
    using assms c by (simp add: upload_begin_def)
qed

lemma upload_begin_rejected:
  assumes "fileType_of_extension (toLowerCase (extname (mf_originalname upl))) = None"
  shows "upload_begin sys now (Some upl) = (sys, Some (400, BodyError unsupported_message))"
  using assms by (simp add: upload_begin_def)

text \<open>
  Claim C6. An upload that carries a file is answered with the error
  "Unsupported file type ..." exactly when the extension of the declared name, lower-cased
  as the handler does, is none of \<open>.pdf\<close>, \<open>.eml\<close>, \<open>.msg\<close>, \<open>.json\<close>; the server is
  then left as it was, so no record of the file is created. For each of the four
  extensions the handler goes on without an answer yet, and the store then holds, under
  the id taken from the counter, a record of the file with the format of that extension:
  PDF for \<open>.pdf\<close>, Email for \<open>.eml\<close> and \<open>.msg\<close>, JSON for \<open>.json\<close>.
\<close>

theorem unsupported_iff_extension:
  "(snd (upload_begin sys now (Some upl)) = Some (400, BodyError unsupported_message) \<longleftrightarrow>
      toLowerCase (extname (mf_originalname upl)) \<notin> accepted_extensions) \<and>
   (toLowerCase (extname (mf_originalname upl)) \<notin> accepted_extensions \<longrightarrow>
      fst (upload_begin sys now (Some upl)) = sys) \<and>
   (toLowerCase (extname (mf_originalname upl)) \<in> accepted_extensions \<longrightarrow>
      snd (upload_begin sys now (Some upl)) = None \<and>
      (\<exists>r. getProcessedFile (store (fst (upload_begin sys now (Some upl)))) (currentId (store sys))
             = Some r \<and>
           pf_id r = currentId (store sys) \<and>
           pf_originalName r = mf_originalname upl \<and>
           Some (pf_fileType r) =
             fileType_of_extension (toLowerCase (extname (mf_originalname upl)))) \<and>
      fileType_of_extension (toLowerCase (extname (mf_originalname upl))) =
        Some (if toLowerCase (extname (mf_originalname upl)) = ''.pdf'' then ''PDF''
              else if toLowerCase (extname (mf_originalname upl)) = ''.json'' then ''JSON''
              else ''Email''))"
proof (cases "fileType_of_extension (toLowerCase (extname (mf_originalname upl)))")
  case None
  then have "toLowerCase (extname (mf_originalname upl)) \<notin> accepted_extensions"
    by (simp add: fileType_of_extension_None)
  then show ?thesis using upload_begin_rejected[OF None] by simp
next
  case (Some t)
  then have in_set: "toLowerCase (extname (mf_originalname upl)) \<in> accepted_extensions"
    using fileType_of_extension_None[of "toLowerCase (extname (mf_originalname upl))"] by simp
  have t: "t = (if toLowerCase (extname (mf_originalname upl)) = ''.pdf'' then ''PDF''
              else if toLowerCase (extname (mf_originalname upl)) = ''.json'' then ''JSON''
              else ''Email'')"
    using Some by (auto simp: fileType_of_extension_Some)
  from upload_begin_created[OF Some, of sys now] in_set Some t
  show ?thesis by auto
qed

theorem unsupported_iff_extension_witness:
  "toLowerCase (extname (mf_originalname example_txt)) \<notin> accepted_extensions \<and>
   upload_begin initial_system 1000 (Some example_txt) =
     (initial_system, Some (400, BodyError unsupported_message)) \<and>
   toLowerCase (extname (mf_originalname example_upper)) \<in> accepted_extensions \<and>
   snd (upload_begin initial_system 1000 (Some example_upper)) = None \<and>
   map_option pf_fileType
     (getProcessedFile (store (fst (upload_begin initial_system 1000 (Some example_upper)))) 1)
     = Some ''PDF''"
proof -
  have a: "toLowerCase (extname (mf_originalname example_txt)) \<notin> accepted_extensions"
    "toLowerCase (extname (mf_originalname example_upper)) \<in> accepted_extensions"
    "toLowerCase (extname (mf_originalname example_upper)) = ''.pdf''"
    "currentId (store initial_system) = 1"
    unfolding accepted_extensions_def by code_simp+
  have b: "fileType_of_extension ''.pdf'' = Some ''PDF''"
    by (simp add: fileType_of_extension_def)
  from a b
    unsupported_iff_extension[where sys = initial_system and now = 1000 and upl = example_txt]
    unsupported_iff_extension[where sys = initial_system and now = 1000 and upl = example_upper]
  show ?thesis
    by (auto simp: prod_eq_iff)
qed

text \<open>
  Claim C2 as it is stated fails. Three uploads with no content at all, named
  \<open>report.pdf\<close>, \<open>mail.eml\<close> and \<open>data.json\<close>, are given the formats PDF, Email and
  JSON: the empty content has no PDF signature, no header and no JSON root, and the
  extension alone has sufficed.
\<close>

theorem extension_alone_counterexample:
  "\<not> spec_pdf_signature (mf_bytes example_pdf) \<and>
   mf_bytes example_eml = [] \<and> mf_bytes example_json = [] \<and>
   map_option pf_fileType
     (getProcessedFile (store (fst (upload_begin initial_system 1000 (Some example_pdf)))) 1)
     = Some ''PDF'' \<and>
   map_option pf_fileType
     (getProcessedFile (store (fst (upload_begin initial_system 1000 (Some example_eml)))) 1)
     = Some ''Email'' \<and>
   map_option pf_fileType
     (getProcessedFile (store (fst (upload_begin initial_system 1000 (Some example_json)))) 1)
     = Some ''JSON''"
  by code_simp

text \<open>
  Claim C2, amended. The format is determined by the declared name alone. The handler
  does the same whatever the bytes of the file are, and the record that it creates has
  the format PDF exactly when the lower-cased extension is \<open>.pdf\<close>, Email exactly when it
  is \<open>.eml\<close> or \<open>.msg\<close>, and JSON exactly when it is \<open>.json\<close>.
\<close>

theorem format_from_extension_alone:
  "upload_begin sys now (Some (upl\<lparr>mf_bytes := bytes\<rparr>)) = upload_begin sys now (Some upl) \<and>
   (\<forall>r. snd (upload_begin sys now (Some upl)) = None \<longrightarrow>
        getProcessedFile (store (fst (upload_begin sys now (Some upl)))) (currentId (store sys))
          = Some r \<longrightarrow>
        (pf_fileType r = ''PDF'' \<longleftrightarrow> toLowerCase (extname (mf_originalname upl)) = ''.pdf'') \<and>
        (pf_fileType r = ''Email'' \<longleftrightarrow>
           toLowerCase (extname (mf_originalname upl)) = ''.eml'' \<or>
           toLowerCase (extname (mf_originalname upl)) = ''.msg'') \<and>
        (pf_fileType r = ''JSON'' \<longleftrightarrow> toLowerCase (extname (mf_originalname upl)) = ''.json''))"
proof
  have "upload_insert (upl\<lparr>mf_bytes := bytes\<rparr>) t = upload_insert upl t" for t
    by (simp add: upload_insert_def)
  then show "upload_begin sys now (Some (upl\<lparr>mf_bytes := bytes\<rparr>)) = upload_begin sys now (Some upl)"
    by (simp add: upload_begin_def split: option.splits)
  show "\<forall>r. snd (upload_begin sys now (Some upl)) = None \<longrightarrow>
        getProcessedFile (store (fst (upload_begin sys now (Some upl)))) (currentId (store sys))
          = Some r \<longrightarrow>
        (pf_fileType r = ''PDF'' \<longleftrightarrow> toLowerCase (extname (mf_originalname upl)) = ''.pdf'') \<and>
        (pf_fileType r = ''Email'' \<longleftrightarrow>
           toLowerCase (extname (mf_originalname upl)) = ''.eml'' \<or>
           toLowerCase (extname (mf_originalname upl)) = ''.msg'') \<and>
        (pf_fileType r = ''JSON'' \<longleftrightarrow> toLowerCase (extname (mf_originalname upl)) = ''.json'')"
  proof (cases "fileType_of_extension (toLowerCase (extname (mf_originalname upl)))")
    case None
    from upload_begin_rejected[OF None] show ?thesis by simp
  next
    case (Some t)
    from upload_begin_created(2)[OF Some, of sys now] Some show ?thesis
      by (auto simp: fileType_of_extension_Some)
  qed
qed

theorem format_from_extension_alone_witness:
  "snd (upload_begin initial_system 1000 (Some example_upper)) = None \<and>
   upload_begin initial_system 1000 (Some (example_upper\<lparr>mf_bytes := ''%PDF-1.7''\<rparr>)) =
     upload_begin initial_system 1000 (Some example_upper) \<and>
   toLowerCase (extname (mf_originalname example_upper)) = ''.pdf'' \<and>
   map_option pf_fileType
     (getProcessedFile (store (fst (upload_begin initial_system 1000 (Some example_upper)))) 1)
     = Some ''PDF''"
proof -
  have a: "snd (upload_begin initial_system 1000 (Some example_upper)) = None"
    "toLowerCase (extname (mf_originalname example_upper)) = ''.pdf''"
    "currentId (store initial_system) = 1"
    "getProcessedFile (store (fst (upload_begin initial_system 1000 (Some example_upper)))) 1 \<noteq> None"
    by code_simp+
  from a format_from_extension_alone[where sys = initial_system and now = 1000
      and upl = example_upper and bytes = "''%PDF-1.7''"]
  show ?thesis by auto
qed

section \<open>The server: the claims about processing\<close>

text \<open>
  Claim C5. In every state that the server can reach, a step that spawns a child for a
  document finds the "Start Processing" record of that document already in the store:
  the write of the record is awaited before \<open>spawn\<close> is called. Hence every child
  spawned so far has its record.
\<close>

theorem activity_written_before_spawn:
  assumes "sys = run_events initial_system evs"
  shows "(\<forall>(i, p, t) \<in> set (spawned (step sys ev)).
            (i, p, t) \<in> set (spawned sys) \<or> has_start_activity (store sys) i) \<and>
         (\<forall>(i, p, t) \<in> set (spawned sys). has_start_activity (store sys) i)"
proof -
  have inv: "system_invariant sys" unfolding assms by (rule reachable_inv)
  have "(i, p, t) \<in> set (spawned sys) \<or> has_start_activity (store sys) i"
    if "(i, p, t) \<in> set (spawned (step sys ev))" for i p t
    using step_spawned[OF inv that] by auto
  moreover have "\<forall>(i, p, t) \<in> set (spawned sys). has_start_activity (store sys) i"
    using inv by (simp add: system_invariant_def)
  ultimately show ?thesis by blast
qed

theorem activity_written_before_spawn_witness:
  "example_logged = run_events initial_system (take 3 example_events) \<and>
   spawned example_logged = [] \<and>
   spawned (step example_logged (EvResume 0 1003 False)) = [(1, ''uploads/a1'', ''PDF'')] \<and>
   has_start_activity (store example_logged) 1"
proof -
  have a: "example_logged = run_events initial_system (take 3 example_events)"
    by (simp add: example_logged_def)
  have b: "spawned example_logged = []"
    "spawned (step example_logged (EvResume 0 1003 False)) = [(1, ''uploads/a1'', ''PDF'')]"
    by code_simp+
  from activity_written_before_spawn[OF a, where ev = "EvResume 0 1003 False"] a b
  show ?thesis by simp
qed

text \<open>
  Claim C1 as it is stated fails. After the child of document 1 has closed with exit
  code 1 the status of the document is \<open>failed\<close>, and the activity log holds what it
  held while the child was running: the one "Start Processing" record, with status
  \<open>pending\<close> and no error message. No record documents the failure.
\<close>

theorem failure_leaves_no_record_counterexample:
  "file_status (store example_failed) 1 = Some ''failed'' \<and>
   \<not> list_ex documents_failure (Map_values (agentActivities (store example_failed))) \<and>
   map aa_action (Map_values (agentActivities (store example_failed))) = [''Start Processing''] \<and>
   map aa_status (Map_values (agentActivities (store example_failed))) = [''pending''] \<and>
   map aa_errorMessage (Map_values (agentActivities (store example_failed))) = [None] \<and>
   agentActivities (store example_failed) = agentActivities (store example_running)"
  by code_simp

text \<open>
  Claim C1, amended. In every state that the server can reach, every document whose
  status is \<open>failed\<close> has at least one activity record, the "Start Processing" record
  written before the child was spawned. When the child closes with a code other than 0,
  and when \<open>spawn\<close> throws, \<open>processFileWithAI\<close> sets the status of the document to
  \<open>failed\<close> and leaves the activity log as it was.
\<close>

theorem failed_document_has_start_record:
  assumes "sys = run_events initial_system evs"
  shows "(\<forall>(k, f) \<in> set (processedFiles (store sys)).
            pf_status f = ''failed'' \<longrightarrow> has_start_activity (store sys) k) \<and>
         (n < length (runs sys) \<and> run_stage (runs sys ! n) = ChildRunning \<and> code \<noteq> Some 0 \<longrightarrow>
            file_status (store (step sys (EvClose n code))) (run_fileId (runs sys ! n))
              = Some ''failed'' \<and>
            agentActivities (store (step sys (EvClose n code))) = agentActivities (store sys)) \<and>
         (n < length (runs sys) \<and> run_stage (runs sys ! n) = AwaitActivity \<longrightarrow>
            file_status (store (step sys (EvResume n now True))) (run_fileId (runs sys ! n))
              = Some ''failed'' \<and>
            agentActivities (store (step sys (EvResume n now True))) = agentActivities (store sys))"
proof -
  have inv: "system_invariant sys" unfolding assms by (rule reachable_inv)
  have 1: "\<forall>(k, f) \<in> set (processedFiles (store sys)).
            pf_status f = ''failed'' \<longrightarrow> has_start_activity (store sys) k"
    using inv by (auto simp: system_invariant_def)
  have 2: "file_status (store (step sys (EvClose n code))) (run_fileId (runs sys ! n))
              = Some ''failed'' \<and>
            agentActivities (store (step sys (EvClose n code))) = agentActivities (store sys)"
    if "n < length (runs sys)" "run_stage (runs sys ! n) = ChildRunning" "code \<noteq> Some 0"
    using on_close_fail(1,2)[OF inv that] that(1) by simp
  have 3: "file_status (store (step sys (EvResume n now True))) (run_fileId (runs sys ! n))
              = Some ''failed'' \<and>
            agentActivities (store (step sys (EvResume n now True))) = agentActivities (store sys)"
    if "n < length (runs sys)" "run_stage (runs sys ! n) = AwaitActivity"
    using catch_block_fail(1,2)[OF inv that] that by (simp add: resume_def Let_def)
  from 1 2 3 show ?thesis by blast
qed

theorem failed_document_has_start_record_witness:
  "example_running = run_events initial_system (take 4 example_events) \<and>
   0 < length (runs example_running) \<and>
   run_stage (runs example_running ! 0) = ChildRunning \<and>
   run_fileId (runs example_running ! 0) = 1 \<and>
   file_status (store (step example_running (EvClose 0 (Some 1)))) 1 = Some ''failed'' \<and>
   agentActivities (store (step example_running (EvClose 0 (Some 1))))
     = agentActivities (store example_running) \<and>
   0 < length (runs example_logged) \<and>
   run_stage (runs example_logged ! 0) = AwaitActivity \<and>
   run_fileId (runs example_logged ! 0) = 1 \<and>
   file_status (store (step example_logged (EvResume 0 1003 True))) 1 = Some ''failed''"
proof -
  have a: "example_running = run_events initial_system (take 4 example_events)"
    by (simp add: example_running_def)
  have b: "example_logged = run_events initial_system (take 3 example_events)"
    by (simp add: example_logged_def)
  have c: "0 < length (runs example_running)"
    "run_stage (runs example_running ! 0) = ChildRunning"
    "run_fileId (runs example_running ! 0) = 1"
    "0 < length (runs example_logged)"
    "run_stage (runs example_logged ! 0) = AwaitActivity"
    "run_fileId (runs example_logged ! 0) = 1"
    by code_simp+
  have d: "Some (1::int) \<noteq> Some 0" by simp
  from failed_document_has_start_record[OF a, where n = 0 and code = "Some 1"]
    failed_document_has_start_record[OF b, where n = 0 and now = 1003]
    a c d
  show ?thesis by simp
qed

text \<open>
  Claim C3. In every state that the server can reach:
  \<^item> the status of every stored file is one of \<open>pending\<close>, \<open>processing\<close>, \<open>completed\<close>,
    \<open>failed\<close>;
  \<^item> an upload that is accepted creates its file, under an id that was free, with status
    \<open>pending\<close>;
  \<^item> a step of the server leaves the status of a file as it is, or creates the file as
    \<open>pending\<close>, or moves it from \<open>pending\<close> to \<open>processing\<close>, or from \<open>processing\<close>
    to \<open>failed\<close>: each move happens at most once for a file and nothing leaves
    \<open>failed\<close> (no step of this code writes \<open>completed\<close>);
  \<^item> a step that spawns a child for a document finds its status at \<open>processing\<close>;
  \<^item> a document waiting for the call of \<open>processFileWithAI\<close> is \<open>pending\<close>, and one
    inside the call, up to the close of its child, is \<open>processing\<close>, so every write of a
    status replaces the status before it in the list above.
\<close>

theorem status_lifecycle:
  assumes "sys = run_events initial_system evs"
  shows "(\<forall>(k, f) \<in> set (processedFiles (store sys)).
            pf_status f \<in> {''pending'', ''processing'', ''completed'', ''failed''}) \<and>
         (snd (upload_begin sys now req_file) = None \<longrightarrow>
            file_status (store sys) (currentId (store sys)) = None \<and>
            file_status (store (fst (upload_begin sys now req_file))) (currentId (store sys))
              = Some ''pending'') \<and>
         status_move (file_status (store sys) i) (file_status (store (step sys ev)) i) \<and>
         (\<forall>(j, p, t) \<in> set (spawned (step sys ev)).
            (j, p, t) \<in> set (spawned sys) \<or> file_status (store sys) j = Some ''processing'') \<and>
         (\<forall>r \<in> set (runs sys).
            (run_stage r = AwaitCreate \<longrightarrow>
               file_status (store sys) (run_fileId r) = Some ''pending'') \<and>
            (run_stage r \<in> {AwaitUpdate, AwaitActivity, ChildRunning} \<longrightarrow>
               file_status (store sys) (run_fileId r) = Some ''processing''))"
proof -
  have inv: "system_invariant sys" unfolding assms by (rule reachable_inv)
  have 1: "\<forall>(k, f) \<in> set (processedFiles (store sys)).
            pf_status f \<in> {''pending'', ''processing'', ''completed'', ''failed''}"
    using inv by (auto simp: system_invariant_def)
  have 4: "(j, p, t) \<in> set (spawned sys) \<or> file_status (store sys) j = Some ''processing''"
    if "(j, p, t) \<in> set (spawned (step sys ev))" for j p t
    using step_spawned[OF inv that] by auto
  have 5: "(run_stage r = AwaitCreate \<longrightarrow>
               file_status (store sys) (run_fileId r) = Some ''pending'') \<and>
            (run_stage r \<in> {AwaitUpdate, AwaitActivity, ChildRunning} \<longrightarrow>
               file_status (store sys) (run_fileId r) = Some ''processing'')"
    if "r \<in> set (runs sys)" for r
  proof -
    from inv that have "stage_ok (store sys) (run_fileId r) (run_stage r)"
      by (simp add: system_invariant_def)
    then show ?thesis by (cases "run_stage r") auto
  qed
  from 1 upload_begin_status(2)[OF inv, of now req_file] step_status[OF inv, of i ev] 4 5
  show ?thesis by blast
qed

theorem status_lifecycle_witness:
  "example_running = run_events initial_system (take 4 example_events) \<and>
   map (pf_status \<circ> snd) (processedFiles (store example_running)) = [''processing''] \<and>
   snd (upload_begin example_running 2000 (Some example_eml)) = None \<and>
   file_status (store (fst (upload_begin example_running 2000 (Some example_eml)))) 3
     = Some ''pending'' \<and>
   file_status (store example_running) 1 = Some ''processing'' \<and>
   file_status (store (step example_running (EvClose 0 None))) 1 = Some ''failed'' \<and>
   status_move (file_status (store example_running) 1)
     (file_status (store (step example_running (EvClose 0 None))) 1) \<and>
   map run_stage (runs example_running) = [ChildRunning]"
proof -
  have a: "example_running = run_events initial_system (take 4 example_events)"
    by (simp add: example_running_def)
  have c: "map (pf_status \<circ> snd) (processedFiles (store example_running)) = [''processing'']"
    "snd (upload_begin example_running 2000 (Some example_eml)) = None"
    "currentId (store example_running) = 3"
    "file_status (store example_running) 1 = Some ''processing''"
    "file_status (store (step example_running (EvClose 0 None))) 1 = Some ''failed''"
    "map run_stage (runs example_running) = [ChildRunning]"
    by code_simp+
  from status_lifecycle[OF a, where now = 2000 and req_file = "Some example_eml"
      and i = 1 and ev = "EvClose 0 None"] a c
  show ?thesis by simp
qed

text \<open>
  Claim C7. The response to an accepted upload is sent when the handler resumes after
  storing the record. It consists of the success flag, the id of the file and a fixed
  message, and nothing else. At that moment \<open>processFileWithAI\<close> has been called but not
  awaited: it is suspended at its first \<open>await\<close>, no activity has been written, no
  child has been spawned and no action has been recorded; what processing does later
  appears in the store only.
\<close>

theorem upload_response_before_processing:
  "snd (upload_continue sys n now) =
     (200, BodySuccess True (run_fileId (runs sys ! n)) success_message) \<and>
   spawned (fst (upload_continue sys n now)) = spawned sys \<and>
   agentActivities (store (fst (upload_continue sys n now))) = agentActivities (store sys) \<and>
   triggeredActions (store (fst (upload_continue sys n now))) = triggeredActions (store sys) \<and>
   (n < length (runs sys) \<longrightarrow>
      run_stage (runs (fst (upload_continue sys n now)) ! n) \<in> {AwaitUpdate, AwaitUpdateRejected})"
  using upload_continue_frame[where sys = sys and n = n and now = now] by blast

theorem upload_response_before_processing_witness:
  "0 < length (runs example_uploaded) \<and>
   run_stage (runs example_uploaded ! 0) = AwaitCreate \<and>
   snd (upload_continue example_uploaded 0 1001) = (200, BodySuccess True 1 success_message) \<and>
   spawned (fst (upload_continue example_uploaded 0 1001)) = [] \<and>
   agentActivities (store (fst (upload_continue example_uploaded 0 1001))) = [] \<and>
   triggeredActions (store (fst (upload_continue example_uploaded 0 1001))) = [] \<and>
   run_stage (runs (fst (upload_continue example_uploaded 0 1001)) ! 0) = AwaitUpdate"
proof -
  have c: "0 < length (runs example_uploaded)"
    "run_stage (runs example_uploaded ! 0) = AwaitCreate"
    "run_fileId (runs example_uploaded ! 0) = 1"
    "spawned example_uploaded = []"
    "agentActivities (store example_uploaded) = []"
    "triggeredActions (store example_uploaded) = []"
    "run_stage (runs (fst (upload_continue example_uploaded 0 1001)) ! 0) = AwaitUpdate"
    by code_simp+
  from upload_response_before_processing[where sys = example_uploaded and n = 0 and now = 1001] c
  show ?thesis by simp
qed

end
